theory Spec2Isabelle
  imports Main "HOL-Library.Sublist"
begin

section \<open>Automated application deployment: a model of auto_deploy.py\<close>

text \<open>
  The script is a sequence of effects on the outside world: it prints, sleeps, reads the
  clock, asks whether a path exists and spawns shell commands. The model makes the outside
  world explicit. An environment answers every question the script asks of it (how the
  n-th spawned command ends, whether a matching process exists then, whether the operator
  interrupts the n-th operation); a state counts the operations and holds the file system;
  and every function returns its result together with the list of effects it performed.
\<close>

subsection \<open>Configuration (STEP 1)\<close>

definition APP_NAME :: string where
  "APP_NAME = ''web-application''"

definition APP_VERSION :: string where
  "APP_VERSION = ''v2.5.0''"

definition SOURCE_DIR :: string where
  "SOURCE_DIR = ''/tmp/builds/web-application''"

definition DEPLOY_DIR :: string where
  "DEPLOY_DIR = ''/opt/applications/web-application''"

definition BACKUP_DIR :: string where
  "BACKUP_DIR = ''/opt/backups/web-application''"

definition HEALTH_CHECK_URL :: string where
  "HEALTH_CHECK_URL = ''http://localhost:8080/health''"

subsection \<open>Formatting\<close>

definition digit_char :: "nat \<Rightarrow> char" where
  "digit_char d = ''0123456789'' ! (d mod 10)"

fun str_nat :: "nat \<Rightarrow> string" where
  "str_nat n = (if n < 10 then [digit_char n] else str_nat (n div 10) @ [digit_char n])"

declare str_nat.simps [simp del]

definition str_int :: "int \<Rightarrow> string" where
  "str_int i = (if i < 0 then ''-'' @ str_nat (nat (- i)) else str_nat (nat i))"

definition zfill :: "nat \<Rightarrow> string \<Rightarrow> string" where
  "zfill w s = replicate (w - length s) (CHR ''0'') @ s"

record datetime =
  year :: nat
  month :: nat
  day :: nat
  hour :: nat
  minute :: nat
  second :: nat
  microsecond :: nat

text \<open>\<^verbatim>\<open>strftime("%Y%m%d_%H%M%S")\<close>, the suffix of a backup directory.\<close>

definition strftime_compact :: "datetime \<Rightarrow> string" where
  "strftime_compact t =
     zfill 4 (str_nat (year t)) @ zfill 2 (str_nat (month t)) @ zfill 2 (str_nat (day t)) @ ''_'' @
     zfill 2 (str_nat (hour t)) @ zfill 2 (str_nat (minute t)) @ zfill 2 (str_nat (second t))"

text \<open>\<^verbatim>\<open>strftime('%Y-%m-%d %H:%M:%S')\<close>, the time of a notification.\<close>

definition strftime_readable :: "datetime \<Rightarrow> string" where
  "strftime_readable t =
     zfill 4 (str_nat (year t)) @ ''-'' @ zfill 2 (str_nat (month t)) @ ''-'' @
     zfill 2 (str_nat (day t)) @ '' '' @ zfill 2 (str_nat (hour t)) @ '':'' @
     zfill 2 (str_nat (minute t)) @ '':'' @ zfill 2 (str_nat (second t))"

text \<open>\<^verbatim>\<open>str(datetime.now())\<close>: the microseconds are printed when they are not zero.\<close>

definition str_datetime :: "datetime \<Rightarrow> string" where
  "str_datetime t =
     strftime_readable t @
     (if microsecond t = 0 then [] else ''.'' @ zfill 6 (str_nat (microsecond t)))"

text \<open>
  \<^verbatim>\<open>time.time()\<close> is a float in the source. The model reads the clock in hundredths of a
  second, which is all that the format \<^verbatim>\<open>:.2f\<close> of the only use shows.
\<close>

definition format_2f :: "int \<Rightarrow> string" where
  "format_2f d =
     (if d < 0 then ''-'' else []) @ str_nat (nat \<bar>d\<bar> div 100) @ ''.'' @
     zfill 2 (str_nat (nat \<bar>d\<bar> mod 100))"

subsection \<open>The file system\<close>

text \<open>
  A file system maps a path to what is there. The tree below a path \<open>p\<close> is the set of
  paths \<open>p\<close> and \<open>p/...\<close>.
\<close>

datatype entry = File string | Directory

type_synonym filesystem = "string \<Rightarrow> entry option"

definition under :: "string \<Rightarrow> string \<Rightarrow> bool" where
  "under p q = (q = p \<or> prefix (p @ ''/'') q)"

definition basename :: "string \<Rightarrow> string" where
  "basename p = rev (takeWhile (\<lambda>c. c \<noteq> CHR ''/'') (rev p))"

text \<open>The path itself and every directory above it: what \<^verbatim>\<open>mkdir -p\<close> creates.\<close>

definition ancestors :: "string \<Rightarrow> string list" where
  "ancestors p =
     filter (\<lambda>d. d \<noteq> [] \<and> (d = p \<or> p ! length d = CHR ''/'')) (prefixes p)"

definition mkdir_p :: "string \<Rightarrow> filesystem \<Rightarrow> filesystem" where
  "mkdir_p p fs = (\<lambda>q. if q \<in> set (ancestors p) \<and> fs q = None then Some Directory else fs q)"

definition rm_rf :: "string \<Rightarrow> filesystem \<Rightarrow> filesystem" where
  "rm_rf p fs = (\<lambda>q. if under p q then None else fs q)"

text \<open>The tree at \<open>src\<close> laid over the tree at \<open>dst\<close>: entries of the source win.\<close>

definition overlay :: "string \<Rightarrow> string \<Rightarrow> filesystem \<Rightarrow> filesystem" where
  "overlay src dst fs =
     (\<lambda>q. if under dst q
           then (case fs (src @ drop (length dst) q) of Some e \<Rightarrow> Some e | None \<Rightarrow> fs q)
           else fs q)"

text \<open>
  \<^verbatim>\<open>cp -r src dst\<close>: when \<open>dst\<close> is an existing directory the source is copied into it,
  under its own name; otherwise \<open>dst\<close> becomes a copy of the source.
\<close>

definition cp_r :: "string \<Rightarrow> string \<Rightarrow> filesystem \<Rightarrow> filesystem" where
  "cp_r src dst fs =
     (if fs dst = Some Directory then overlay src (dst @ ''/'' @ basename src) fs
      else (\<lambda>q. if under dst q then fs (src @ drop (length dst) q) else fs q))"

text \<open>
  \<^verbatim>\<open>cp -r src/* dst/\<close>: the shell expands \<open>*\<close> to the entries of \<open>src\<close> whose names do not
  start with a dot, and each is copied into \<open>dst\<close>.
\<close>

definition cp_r_glob :: "string \<Rightarrow> string \<Rightarrow> filesystem \<Rightarrow> filesystem" where
  "cp_r_glob src dst fs =
     (\<lambda>q. if prefix (dst @ ''/'') q \<and> \<not> prefix (dst @ ''/.'') q
           then (case fs (src @ drop (length dst) q) of Some e \<Rightarrow> Some e | None \<Rightarrow> fs q)
           else fs q)"

subsection \<open>Commands\<close>

datatype signal = SIGTERM | SIGKILL

text \<open>The shell commands of the script, one constructor for each command line.\<close>

datatype command =
    Pgrep
  | Pkill signal
  | BackupCmd string
  | MkdirDeploy
  | CopyNewFiles
  | ChmodScripts
  | StartScript
  | StartDirect
  | Curl
  | RestoreCmd string

definition signal_name :: "signal \<Rightarrow> string" where
  "signal_name sg = (case sg of SIGTERM \<Rightarrow> ''SIGTERM'' | SIGKILL \<Rightarrow> ''SIGKILL'')"

definition shell_text :: "command \<Rightarrow> string" where
  "shell_text c =
     (case c of
        Pgrep \<Rightarrow> ''pgrep -f '' @ APP_NAME
      | Pkill sg \<Rightarrow> ''pkill -'' @ signal_name sg @ '' -f '' @ APP_NAME
      | BackupCmd backup_path \<Rightarrow>
          ''mkdir -p '' @ BACKUP_DIR @ '' && cp -r '' @ DEPLOY_DIR @ '' '' @ backup_path
      | MkdirDeploy \<Rightarrow> ''mkdir -p '' @ DEPLOY_DIR
      | CopyNewFiles \<Rightarrow> ''cp -r '' @ SOURCE_DIR @ ''/* '' @ DEPLOY_DIR @ ''/''
      | ChmodScripts \<Rightarrow> ''chmod +x '' @ DEPLOY_DIR @ ''/*.sh''
      | StartScript \<Rightarrow> DEPLOY_DIR @ ''/start.sh''
      | StartDirect \<Rightarrow> ''cd '' @ DEPLOY_DIR @ '' && nohup ./app &''
      | Curl \<Rightarrow> ''curl -sf '' @ HEALTH_CHECK_URL
      | RestoreCmd backup_path \<Rightarrow>
          ''rm -rf '' @ DEPLOY_DIR @ '' && cp -r '' @ backup_path @ '' '' @ DEPLOY_DIR)"

text \<open>What a command that exits with status 0 has done to the file system.\<close>

definition effect :: "command \<Rightarrow> filesystem \<Rightarrow> filesystem" where
  "effect c fs =
     (case c of
        BackupCmd backup_path \<Rightarrow> cp_r DEPLOY_DIR backup_path (mkdir_p BACKUP_DIR fs)
      | MkdirDeploy \<Rightarrow> mkdir_p DEPLOY_DIR fs
      | CopyNewFiles \<Rightarrow> cp_r_glob SOURCE_DIR DEPLOY_DIR fs
      | RestoreCmd backup_path \<Rightarrow> cp_r backup_path DEPLOY_DIR (rm_rf DEPLOY_DIR fs)
      | _ \<Rightarrow> fs)"

text \<open>The commands that write to the file system, and those that look for the process.\<close>

definition writes_files :: "command \<Rightarrow> bool" where
  "writes_files c =
     (case c of BackupCmd _ \<Rightarrow> True | MkdirDeploy \<Rightarrow> True | CopyNewFiles \<Rightarrow> True
      | RestoreCmd _ \<Rightarrow> True | _ \<Rightarrow> False)"

definition needs_process :: "command \<Rightarrow> bool" where
  "needs_process c = (case c of Pgrep \<Rightarrow> True | Pkill _ \<Rightarrow> True | _ \<Rightarrow> False)"

subsection \<open>Environment, state, effects\<close>

text \<open>How a spawned command ends by itself: with an exit status and its standard error,
  or it cannot be spawned at all.\<close>

datatype completion = Exits int string | Fails string

text \<open>
  The environment. \<open>interrupt n\<close>: the operator interrupts the n-th operation of the run
  (KeyboardInterrupt). \<open>outcome c\<close>, \<open>duration c\<close>: how the c-th spawned command ends and
  how many seconds it needs. \<open>matching c\<close>: a process matching the application name exists
  when the c-th command runs; \<^verbatim>\<open>pgrep\<close> and \<^verbatim>\<open>pkill\<close> exit with status 1 when none
  does. \<open>wreck c\<close>: what a c-th command that writes files leaves behind when it does not
  exit with status 0. \<open>now n\<close>, \<open>clock n\<close>: the wall clock at the n-th operation.
\<close>

record env =
  interrupt :: "nat \<Rightarrow> bool"
  outcome :: "nat \<Rightarrow> completion"
  duration :: "nat \<Rightarrow> nat"
  matching :: "nat \<Rightarrow> bool"
  wreck :: "nat \<Rightarrow> filesystem \<Rightarrow> filesystem"
  now :: "nat \<Rightarrow> datetime"
  clock :: "nat \<Rightarrow> int"

record state =
  steps :: nat
  calls :: nat
  fs :: filesystem

datatype level = INFO | SUCCESS | WARNING | ERROR | PLAIN

datatype ran = Returned int string | TimedOut | NotSpawned string

text \<open>
  The effects of a run, in order: a line printed (by \<^verbatim>\<open>print_info\<close>, ..., or plain
  \<^verbatim>\<open>print\<close>), a command spawned and how it ended, a sleep, and the notification block
  with its status, application, version, time and message.
\<close>

datatype event =
    Print level string
  | Ran command ran
  | Slept nat
  | Notification string string string string string

datatype exn = KeyboardInterrupt | TimeoutExpired string nat | OtherError string

definition str_exn :: "exn \<Rightarrow> string" where
  "str_exn e =
     (case e of
        KeyboardInterrupt \<Rightarrow> []
      | TimeoutExpired cmd t \<Rightarrow>
          ''Command '' @ [CHR 0x27] @ cmd @ [CHR 0x27] @ '' timed out after '' @ str_nat t @
          '' seconds''
      | OtherError m \<Rightarrow> m)"

datatype 'a res = Ret 'a | Raise exn

type_synonym 'a prog = "env \<Rightarrow> state \<Rightarrow> 'a res \<times> event list \<times> state"

definition ret :: "'a \<Rightarrow> 'a prog" where
  "ret v = (\<lambda>E s. (Ret v, [], s))"

definition raise :: "exn \<Rightarrow> 'a prog" where
  "raise e = (\<lambda>E s. (Raise e, [], s))"

text \<open>
  \<open>try_with m k h\<close>: run \<open>m\<close> inside a \<^verbatim>\<open>try\<close>; an exception of \<open>m\<close> goes to the handler
  \<open>h\<close>, a result goes on to \<open>k\<close>, whose own exceptions the handler does not see.
\<close>

definition try_with :: "'a prog \<Rightarrow> ('a \<Rightarrow> 'b prog) \<Rightarrow> (exn \<Rightarrow> 'b prog) \<Rightarrow> 'b prog" where
  "try_with m k h =
     (\<lambda>E s. case m E s of
        (Ret v, es, s1) \<Rightarrow> (case k v E s1 of (r, es2, s2) \<Rightarrow> (r, es @ es2, s2))
      | (Raise e, es, s1) \<Rightarrow> (case h e E s1 of (r, es2, s2) \<Rightarrow> (r, es @ es2, s2)))"

definition bnd :: "'a prog \<Rightarrow> ('a \<Rightarrow> 'b prog) \<Rightarrow> 'b prog" where
  "bnd m k = try_with m k raise"

definition seq :: "'a prog \<Rightarrow> 'b prog \<Rightarrow> 'b prog" where
  "seq m k = bnd m (\<lambda>_. k)"

definition catch :: "'a prog \<Rightarrow> (exn \<Rightarrow> 'a prog) \<Rightarrow> 'a prog" where
  "catch m h = try_with m ret h"

definition only_if :: "bool \<Rightarrow> unit prog \<Rightarrow> unit prog" where
  "only_if b m = (if b then m else ret ())"

subsection \<open>Primitive operations\<close>

text \<open>
  Every operation is one step of the run, and the operator may interrupt any step: the
  operation then raises KeyboardInterrupt and has no effect.
\<close>

definition operation :: "'a prog \<Rightarrow> 'a prog" where
  "operation m =
     (\<lambda>E s. if interrupt E (steps s)
             then (Raise KeyboardInterrupt, [], s\<lparr>steps := Suc (steps s)\<rparr>)
             else m E (s\<lparr>steps := Suc (steps s)\<rparr>))"

definition print_line :: "level \<Rightarrow> string \<Rightarrow> unit prog" where
  "print_line l message = operation (\<lambda>E s. (Ret (), [Print l message], s))"

definition print_info :: "string \<Rightarrow> unit prog" where
  "print_info message = print_line INFO message"

definition print_success :: "string \<Rightarrow> unit prog" where
  "print_success message = print_line SUCCESS message"

definition print_warning :: "string \<Rightarrow> unit prog" where
  "print_warning message = print_line WARNING message"

definition print_error :: "string \<Rightarrow> unit prog" where
  "print_error message = print_line ERROR message"

definition print_plain :: "string \<Rightarrow> unit prog" where
  "print_plain message = print_line PLAIN message"

definition time_sleep :: "nat \<Rightarrow> unit prog" where
  "time_sleep n = operation (\<lambda>E s. (Ret (), [Slept n], s))"

definition os_path_exists :: "string \<Rightarrow> bool prog" where
  "os_path_exists p = operation (\<lambda>E s. (Ret (fs s p \<noteq> None), [], s))"

definition datetime_now :: "datetime prog" where
  "datetime_now = operation (\<lambda>E s. (Ret (now E (steps s - 1)), [], s))"

definition time_time :: "int prog" where
  "time_time = operation (\<lambda>E s. (Ret (clock E (steps s - 1)), [], s))"

record completed_process =
  returncode :: int
  stderr :: string

text \<open>
  \<^verbatim>\<open>subprocess.run(command, timeout=...)\<close>. A command that cannot be spawned raises an
  exception; one that needs longer than the timeout is killed and raises TimeoutExpired;
  otherwise the call returns the exit status. A command that looks for the process exits
  with status 1 when no process matches.
\<close>

definition status_of :: "env \<Rightarrow> nat \<Rightarrow> command \<Rightarrow> int \<Rightarrow> int" where
  "status_of E c command rc = (if needs_process command \<and> \<not> matching E c then 1 else rc)"

definition spoil :: "env \<Rightarrow> nat \<Rightarrow> command \<Rightarrow> filesystem \<Rightarrow> filesystem" where
  "spoil E c command f = (if writes_files command then wreck E c f else f)"

definition timed_out :: "nat option \<Rightarrow> nat \<Rightarrow> nat option" where
  "timed_out timeout d =
     (case timeout of None \<Rightarrow> None | Some t \<Rightarrow> if t < d then Some t else None)"

definition subprocess_run :: "command \<Rightarrow> nat option \<Rightarrow> completed_process prog" where
  "subprocess_run command timeout =
     operation (\<lambda>E s.
       let c = calls s; s1 = s\<lparr>calls := Suc c\<rparr> in
       case outcome E c of
         Fails m \<Rightarrow> (Raise (OtherError m), [Ran command (NotSpawned m)], s1)
       | Exits rc err \<Rightarrow>
           (case timed_out timeout (duration E c) of
              Some t \<Rightarrow>
                (Raise (TimeoutExpired (shell_text command) t), [Ran command TimedOut],
                 s1\<lparr>fs := spoil E c command (fs s)\<rparr>)
            | None \<Rightarrow>
                (Ret \<lparr>returncode = status_of E c command rc, stderr = err\<rparr>,
                 [Ran command (Returned (status_of E c command rc) err)],
                 s1\<lparr>fs := (if status_of E c command rc = 0 then effect command (fs s)
                             else spoil E c command (fs s))\<rparr>)))"

subsection \<open>STEP 3: run a shell command\<close>

definition run_command :: "command \<Rightarrow> string \<Rightarrow> bool prog" where
  "run_command command description =
     seq (only_if (description \<noteq> []) (print_info description))
       (catch
          (bnd (subprocess_run command (Some 300))
             (\<lambda>result.
                if returncode result = 0
                then seq (print_success ''Command completed successfully'') (ret True)
                else seq (print_error
                            (''Command failed with exit code '' @ str_int (returncode result)))
                       (seq (only_if (stderr result \<noteq> [])
                               (print_error (''Error: '' @ stderr result)))
                          (ret False))))
          (\<lambda>e. case e of
                  TimeoutExpired _ _ \<Rightarrow>
                    seq (print_error ''Command timed out after 5 minutes'') (ret False)
                | OtherError m \<Rightarrow>
                    seq (print_error (''Failed to run command: '' @ m)) (ret False)
                | KeyboardInterrupt \<Rightarrow> raise KeyboardInterrupt))"

subsection \<open>STEP 4: is the application running\<close>

definition check_app_running :: "bool prog" where
  "check_app_running =
     seq (print_info ''Checking if application is running...'')
       (bnd (subprocess_run Pgrep None)
          (\<lambda>result.
             if returncode result = 0
             then seq (print_warning (APP_NAME @ '' is currently running'')) (ret True)
             else seq (print_info (APP_NAME @ '' is not running'')) (ret False)))"

subsection \<open>STEP 5: stop the application\<close>

text \<open>The forced kill, reached when the graceful signal failed or the process survived it.\<close>

definition force_kill :: "bool prog" where
  "force_kill =
     seq (print_warning ''Graceful shutdown failed, forcing kill...'')
       (bnd (run_command (Pkill SIGKILL) ''Sending SIGKILL signal'')
          (\<lambda>killed.
             if killed
             then seq (time_sleep 2)
                    (seq (print_success ''Application forcefully stopped'') (ret True))
             else ret False))"

definition stop_application :: "bool prog" where
  "stop_application =
     seq (print_info (''Stopping '' @ APP_NAME @ ''...''))
       (bnd (run_command (Pkill SIGTERM) ''Sending SIGTERM (graceful shutdown) signal'')
          (\<lambda>signalled.
             if signalled
             then seq (time_sleep 5)
                    (bnd check_app_running
                       (\<lambda>running.
                          if \<not> running
                          then seq (print_success ''Application stopped successfully'')
                                 (ret True)
                          else force_kill))
             else force_kill))"

subsection \<open>STEP 6: back up the current version\<close>

definition backup_current_version :: "string option prog" where
  "backup_current_version =
     seq (print_info ''Creating backup of current version...'')
       (bnd (os_path_exists DEPLOY_DIR)
          (\<lambda>exists.
             if \<not> exists
             then seq (print_warning ''No existing deployment to backup'') (ret None)
             else bnd datetime_now
                    (\<lambda>t. let backup_path = BACKUP_DIR @ ''/'' @ APP_NAME @ ''_'' @ strftime_compact t
                         in bnd (run_command (BackupCmd backup_path)
                                   (''Backing up to '' @ backup_path))
                              (\<lambda>copied.
                                 if copied
                                 then seq (print_success (''Backup created: '' @ backup_path))
                                        (ret (Some backup_path))
                                 else seq (print_error ''Backup failed!'') (ret None)))))"

subsection \<open>STEP 7: deploy the new version\<close>

definition deploy_new_version :: "bool prog" where
  "deploy_new_version =
     seq (print_info (''Deploying '' @ APP_NAME @ '' version '' @ APP_VERSION @ ''...''))
       (bnd (os_path_exists SOURCE_DIR)
          (\<lambda>exists.
             if \<not> exists
             then seq (print_error (''Source directory not found: '' @ SOURCE_DIR)) (ret False)
             else bnd (run_command MkdirDeploy ''Creating deployment directory'')
                    (\<lambda>made.
                       if \<not> made then ret False
                       else bnd (run_command CopyNewFiles ''Copying new application files'')
                              (\<lambda>copied.
                                 if \<not> copied then ret False
                                 else bnd (run_command ChmodScripts
                                             ''Setting execute permissions'')
                                        (\<lambda>marked.
                                           if \<not> marked then ret False
                                           else seq (print_success
                                                       ''New version deployed successfully'')
                                                  (ret True))))))"

subsection \<open>STEP 8: start the application\<close>

definition start_application :: "bool prog" where
  "start_application =
     seq (print_info (''Starting '' @ APP_NAME @ ''...''))
       (bnd (os_path_exists (DEPLOY_DIR @ ''/start.sh''))
          (\<lambda>exists.
             bnd (if \<not> exists
                  then seq (print_warning
                              (''Start script not found: '' @ DEPLOY_DIR @ ''/start.sh''))
                         (seq (print_info ''Attempting alternative start method...'')
                            (ret StartDirect))
                  else ret StartScript)
               (\<lambda>start_command.
                  bnd (run_command start_command ''Executing start command'')
                    (\<lambda>started.
                       if started
                       then seq (time_sleep 3)
                              (seq (print_success ''Application started'') (ret True))
                       else seq (print_error ''Failed to start application'') (ret False)))))"

subsection \<open>STEP 9: health check\<close>

text \<open>One attempt: the body of the \<^verbatim>\<open>try\<close> block of the loop and its handler.\<close>

definition probe :: "nat \<Rightarrow> bool prog" where
  "probe attempt =
     catch
       (bnd (subprocess_run Curl (Some 5))
          (\<lambda>result.
             if returncode result = 0
             then seq (print_success
                         ([CHR 0xC3, CHR 0xA2, CHR 0xC5, CHR 0x93, CHR 0xE2, CHR 0x80, CHR 0x9C] @
                          '' Application is healthy!''))
                    (ret True)
             else seq (print_warning
                         (''Health check failed (attempt '' @ str_nat attempt @ '')''))
                    (ret False)))
       (\<lambda>e. case e of
               KeyboardInterrupt \<Rightarrow> raise KeyboardInterrupt
             | _ \<Rightarrow> seq (print_warning (''Health check error: '' @ str_exn e)) (ret False))"

text \<open>The \<^verbatim>\<open>while\<close> loop, from the attempt it is at, and what follows it.\<close>

function health_loop :: "nat \<Rightarrow> nat \<Rightarrow> bool prog" where
  "health_loop max_attempts attempt =
     (if attempt \<le> max_attempts
      then seq (print_info
                  (''Health check attempt '' @ str_nat attempt @ ''/'' @ str_nat max_attempts))
             (bnd (probe attempt)
                (\<lambda>healthy.
                   if healthy then ret True
                   else seq (only_if (attempt < max_attempts) (time_sleep 5))
                          (health_loop max_attempts (attempt + 1))))
      else seq (print_error ''Health check failed - application is not responding'')
             (ret False))"
  by pat_completeness auto
termination
  by (relation "measure (\<lambda>(max_attempts, attempt). Suc max_attempts - attempt)") auto

declare health_loop.simps [simp del]

definition health_check :: "bool prog" where
  "health_check = seq (print_info ''Performing health check...'') (health_loop 12 1)"

subsection \<open>STEP 10: roll back to the previous version\<close>

definition no_backup_available :: "bool prog" where
  "no_backup_available = seq (print_error ''No backup available for rollback!'') (ret False)"

definition rollback_failed :: "bool prog" where
  "rollback_failed = seq (print_error ''Rollback failed!'') (ret False)"

definition rollback :: "string option \<Rightarrow> bool prog" where
  "rollback backup_path =
     seq (print_warning ''Initiating rollback to previous version...'')
       (case backup_path of
          None \<Rightarrow> no_backup_available
        | Some path \<Rightarrow>
            if path = [] then no_backup_available
            else bnd (os_path_exists path)
                   (\<lambda>exists.
                      if \<not> exists then no_backup_available
                      else seq stop_application
                             (bnd (run_command (RestoreCmd path) ''Restoring previous version'')
                                (\<lambda>restored.
                                   if restored
                                   then bnd start_application
                                          (\<lambda>started.
                                             if started
                                             then seq (print_success
                                                         ''Rollback completed successfully'')
                                                    (ret True)
                                             else rollback_failed)
                                   else rollback_failed))))"

subsection \<open>STEP 11: notification\<close>

definition upper :: "string \<Rightarrow> string" where
  "upper s =
     map (\<lambda>c. if 97 \<le> (of_char c :: nat) \<and> (of_char c :: nat) \<le> 122
               then char_of ((of_char c :: nat) - 32) else c) s"

definition send_notification :: "string \<Rightarrow> string \<Rightarrow> unit prog" where
  "send_notification status message =
     seq (print_info (''Sending '' @ status @ '' notification...''))
       (bnd datetime_now
          (\<lambda>t. operation
                 (\<lambda>E s. (Ret (),
                          [Notification (upper status) APP_NAME APP_VERSION
                             (strftime_readable t) message], s))))"

subsection \<open>STEP 12: the deployment workflow\<close>

definition truthy :: "string option \<Rightarrow> bool" where
  "truthy backup_path = (case backup_path of None \<Rightarrow> False | Some path \<Rightarrow> path \<noteq> [])"

definition banner :: "unit prog" where
  "banner =
     seq (print_plain (replicate 50 (CHR ''='')))
       (seq (print_plain ''    AUTOMATED DEPLOYMENT SCRIPT'')
          (seq (print_plain (''    Application: '' @ APP_NAME))
             (seq (print_plain (''    Version: '' @ APP_VERSION))
                (bnd datetime_now
                   (\<lambda>t. seq (print_plain (''    Time: '' @ str_datetime t))
                          (seq (print_plain (replicate 50 (CHR ''=''))) (print_plain [])))))))"

text \<open>Steps 4 to 6 and the success report (lines 449 to 480 of the script).\<close>

definition deploy_and_verify :: "int \<Rightarrow> string option \<Rightarrow> int prog" where
  "deploy_and_verify deployment_start_time backup_path =
     bnd deploy_new_version
       (\<lambda>deployed.
          if \<not> deployed then seq (print_error ''Deployment failed'') (ret 1)
          else bnd start_application
                 (\<lambda>started.
                    if \<not> started
                    then seq (print_error ''Failed to start application'')
                           (seq (if truthy backup_path
                                 then seq (rollback backup_path) (ret ()) else ret ())
                              (ret 1))
                    else bnd health_check
                           (\<lambda>healthy.
                              if \<not> healthy
                              then seq (print_error ''Health check failed'')
                                     (seq (if truthy backup_path
                                           then seq (rollback backup_path)
                                                  (send_notification ''failure''
                                                     ''Deployment failed health check, rolled back'')
                                           else ret ())
                                        (ret 1))
                              else bnd time_time
                                     (\<lambda>t. let deployment_time = t - deployment_start_time in
                                        seq (print_plain [])
                                          (seq (print_plain (replicate 50 (CHR ''='')))
                                             (seq (print_success
                                                     ''DEPLOYMENT COMPLETED SUCCESSFULLY!'')
                                                (seq (print_success
                                                        (''Time taken: '' @
                                                         format_2f deployment_time @
                                                         '' seconds''))
                                                   (seq (print_plain (replicate 50 (CHR ''='')))
                                                      (seq (send_notification ''success''
                                                              (''Deployment completed in '' @
                                                               format_2f deployment_time @ ''s''))
                                                         (ret 0))))))))))"

text \<open>
  The rest of the \<^verbatim>\<open>try\<close> block once \<^verbatim>\<open>backup_path\<close> has its final value (lines 440 to
  480).
\<close>

definition stop_and_deploy :: "int \<Rightarrow> bool \<Rightarrow> string option \<Rightarrow> int prog" where
  "stop_and_deploy deployment_start_time is_running backup_path =
     seq (only_if (is_running \<and> \<not> truthy backup_path)
            (print_warning ''Backup failed, but continuing deployment...''))
       (if is_running
        then bnd stop_application
               (\<lambda>stopped.
                  if \<not> stopped then seq (print_error ''Failed to stop application'') (ret 1)
                  else deploy_and_verify deployment_start_time backup_path)
        else deploy_and_verify deployment_start_time backup_path)"

text \<open>
  The two \<^verbatim>\<open>except\<close> clauses, with the value \<^verbatim>\<open>backup_path\<close> has when the exception
  arrives.
\<close>

definition except_clause :: "string option \<Rightarrow> exn \<Rightarrow> int prog" where
  "except_clause backup_path e =
     (case e of
        KeyboardInterrupt \<Rightarrow>
          seq (print_plain [])
            (seq (print_warning ''Deployment interrupted by user'')
               (seq (if truthy backup_path then seq (rollback backup_path) (ret ()) else ret ())
                  (ret 1)))
      | _ \<Rightarrow>
          seq (print_error (''Unexpected error: '' @ str_exn e))
            (seq (if truthy backup_path then seq (rollback backup_path) (ret ()) else ret ())
               (ret 1)))"

text \<open>Steps 1 and 2: until they have returned, \<^verbatim>\<open>backup_path\<close> is still None.\<close>

definition check_and_backup :: "(bool \<times> string option) prog" where
  "check_and_backup =
     bnd check_app_running
       (\<lambda>is_running.
          if is_running
          then bnd backup_current_version (\<lambda>backup_path. ret (is_running, backup_path))
          else ret (is_running, None))"

definition main :: "int prog" where
  "main =
     seq banner
       (bnd time_time
          (\<lambda>deployment_start_time.
             try_with check_and_backup
               (\<lambda>(is_running, backup_path).
                  catch (stop_and_deploy deployment_start_time is_running backup_path)
                    (except_clause backup_path))
               (except_clause None)))"

section \<open>Properties of runs\<close>

text \<open>Every event a program can emit, in any environment and state, satisfies \<open>P\<close>.\<close>

definition emits :: "(event \<Rightarrow> bool) \<Rightarrow> 'a prog \<Rightarrow> bool" where
  "emits P m = (\<forall>E s. list_all P (fst (snd (m E s))))"

text \<open>
  Disturbances of a run: an interruption by the operator, or a command that cannot be
  spawned. A run is calm from a state on when none happens from there on; \<open>once\<close> says
  that at most one happens from there on.
\<close>

definition fails :: "env \<Rightarrow> nat \<Rightarrow> bool" where
  "fails E c = (case outcome E c of Fails _ \<Rightarrow> True | Exits _ _ \<Rightarrow> False)"

definition calm_from :: "env \<Rightarrow> state \<Rightarrow> bool" where
  "calm_from E s = ((\<forall>n\<ge>steps s. \<not> interrupt E n) \<and> (\<forall>c\<ge>calls s. \<not> fails E c))"

definition once :: "env \<Rightarrow> state \<Rightarrow> bool" where
  "once E s =
     ((\<forall>n n'. steps s \<le> n \<and> steps s \<le> n' \<and> interrupt E n \<and> interrupt E n' \<longrightarrow> n = n') \<and>
      (\<forall>c c'. calls s \<le> c \<and> calls s \<le> c' \<and> fails E c \<and> fails E c' \<longrightarrow> c = c') \<and>
      (\<forall>n c. steps s \<le> n \<and> calls s \<le> c \<longrightarrow> \<not> (interrupt E n \<and> fails E c)))"

definition is_timeout :: "exn \<Rightarrow> bool" where
  "is_timeout e = (case e of TimeoutExpired _ _ \<Rightarrow> True | _ \<Rightarrow> False)"

text \<open>
  A tame program only moves the counters forward, and raises an exception only when it is
  disturbed: it returns in a calm run, and after the single disturbance of a run that has
  at most one, the run is calm. A lax one may also raise TimeoutExpired.
\<close>

definition tame :: "bool \<Rightarrow> 'a prog \<Rightarrow> bool" where
  "tame lax m =
     (\<forall>E s r es s'. m E s = (r, es, s') \<longrightarrow>
        steps s \<le> steps s' \<and> calls s \<le> calls s' \<and>
        (\<forall>e. r = Raise e \<longrightarrow>
           (lax \<and> is_timeout e) \<or> (\<not> calm_from E s \<and> (once E s \<longrightarrow> calm_from E s'))))"

subsection \<open>Closed forms of a command run\<close>

text \<open>
  What the \<open>Ran\<close> event of the c-th command records, whether that is a success, the lines
  \<^verbatim>\<open>run_command\<close> logs before and after it, and the file system it leaves.
\<close>

definition how_ended :: "env \<Rightarrow> nat \<Rightarrow> command \<Rightarrow> nat option \<Rightarrow> ran" where
  "how_ended E c command timeout =
     (case outcome E c of
        Fails m \<Rightarrow> NotSpawned m
      | Exits rc err \<Rightarrow>
          (case timed_out timeout (duration E c) of
             Some _ \<Rightarrow> TimedOut
           | None \<Rightarrow> Returned (status_of E c command rc) err))"

definition succeeded :: "ran \<Rightarrow> bool" where
  "succeeded x = (case x of Returned rc _ \<Rightarrow> rc = 0 | _ \<Rightarrow> False)"

definition described :: "string \<Rightarrow> event list" where
  "described description = (if description \<noteq> [] then [Print INFO description] else [])"

definition report :: "ran \<Rightarrow> event list" where
  "report x =
     (case x of
        Returned rc err \<Rightarrow>
          if rc = 0 then [Print SUCCESS ''Command completed successfully'']
          else Print ERROR (''Command failed with exit code '' @ str_int rc) #
               (if err \<noteq> [] then [Print ERROR (''Error: '' @ err)] else [])
      | TimedOut \<Rightarrow> [Print ERROR ''Command timed out after 5 minutes'']
      | NotSpawned m \<Rightarrow> [Print ERROR (''Failed to run command: '' @ m)])"

definition files_after :: "env \<Rightarrow> nat \<Rightarrow> command \<Rightarrow> ran \<Rightarrow> filesystem \<Rightarrow> filesystem" where
  "files_after E c command x f =
     (case x of
        Returned rc _ \<Rightarrow> if rc = 0 then effect command f else spoil E c command f
      | TimedOut \<Rightarrow> spoil E c command f
      | NotSpawned _ \<Rightarrow> f)"

definition uninterrupted :: "env \<Rightarrow> bool" where
  "uninterrupted E = (\<forall>n. \<not> interrupt E n)"

subsection \<open>Observing a run\<close>

definition result :: "'a prog \<Rightarrow> env \<Rightarrow> state \<Rightarrow> 'a res" where
  "result m E s = fst (m E s)"

definition events :: "'a prog \<Rightarrow> env \<Rightarrow> state \<Rightarrow> event list" where
  "events m E s = fst (snd (m E s))"

definition final :: "'a prog \<Rightarrow> env \<Rightarrow> state \<Rightarrow> state" where
  "final m E s = snd (snd (m E s))"

definition is_print :: "event \<Rightarrow> bool" where
  "is_print e = (case e of Print _ _ \<Rightarrow> True | _ \<Rightarrow> False)"

definition actions :: "event list \<Rightarrow> event list" where
  "actions es = filter (\<lambda>e. \<not> is_print e) es"

text \<open>
  A quiet environment for examples: nobody interrupts, every command exits at once with
  status 0, the process exists. Variants change one answer.
\<close>

definition still :: env where
  "still =
     \<lparr>interrupt = (\<lambda>_. False), outcome = (\<lambda>_. Exits 0 []), duration = (\<lambda>_. 1),
      matching = (\<lambda>_. True), wreck = (\<lambda>_ f. f),
      now = (\<lambda>_. \<lparr>year = 2024, month = 5, day = 17, hour = 9, minute = 3, second = 7,
                    microsecond = 0\<rparr>),
      clock = (\<lambda>n. 100 * int n)\<rparr>"

definition fresh :: "filesystem \<Rightarrow> state" where
  "fresh f = \<lparr>steps = 0, calls = 0, fs = f\<rparr>"

definition nothing :: filesystem where
  "nothing = (\<lambda>_. None)"

subsection \<open>The health check, as the specification words it\<close>

text \<open>
  \<open>probe_ok E c\<close>: the probe spawned as the c-th command succeeds (status 0 within five
  seconds). \<open>schedule E c k\<close>: k probes, the first being the c-th command, with a sleep of
  five seconds between consecutive probes and none after the last.
\<close>

definition probe_ok :: "env \<Rightarrow> nat \<Rightarrow> bool" where
  "probe_ok E c = succeeded (how_ended E c Curl (Some 5))"

fun schedule :: "env \<Rightarrow> nat \<Rightarrow> nat \<Rightarrow> event list" where
  "schedule E c 0 = []"
| "schedule E c (Suc 0) = [Ran Curl (how_ended E c Curl (Some 5))]"
| "schedule E c (Suc (Suc k)) =
     Ran Curl (how_ended E c Curl (Some 5)) # Slept 5 # schedule E (Suc c) (Suc k)"

definition is_probe :: "event \<Rightarrow> bool" where
  "is_probe e = (case e of Ran c _ \<Rightarrow> c = Curl | _ \<Rightarrow> False)"

definition is_sleep :: "event \<Rightarrow> bool" where
  "is_sleep e = (case e of Slept _ \<Rightarrow> True | _ \<Rightarrow> False)"

text \<open>The probe fails twice, then succeeds.\<close>

definition flaky :: env where
  "flaky = still\<lparr>outcome := (\<lambda>c. if c < 2 then Exits 22 [] else Exits 0 [])\<rparr>"

subsection \<open>Files\<close>

text \<open>A program that leaves the file system as it found it.\<close>

definition keeps_files :: "'a prog \<Rightarrow> bool" where
  "keeps_files m = (\<forall>E s. fs (snd (snd (m E s))) = fs s)"




definition succeeded_run :: "command \<Rightarrow> event \<Rightarrow> bool" where
  "succeeded_run c e = (case e of Ran c' x \<Rightarrow> c' = c \<and> succeeded x | _ \<Rightarrow> False)"

definition ran_ok :: "command \<Rightarrow> event list \<Rightarrow> bool" where
  "ran_ok c es = list_ex (succeeded_run c) es"

definition one_version :: filesystem where
  "one_version = nothing(DEPLOY_DIR := Some Directory, DEPLOY_DIR @ ''/app'' := Some (File ''v1''))"


subsection \<open>Which step an event belongs to\<close>

text \<open>
  The events that show that \<^verbatim>\<open>backup_current_version\<close> or \<^verbatim>\<open>stop_application\<close> ran:
  the line each prints first, and the commands only they spawn. An event is unprepared when
  it is neither.
\<close>

definition backup_event :: "event \<Rightarrow> bool" where
  "backup_event e =
     (case e of
        Print _ m \<Rightarrow> m = ''Creating backup of current version...''
      | Ran c _ \<Rightarrow> (case c of BackupCmd _ \<Rightarrow> True | _ \<Rightarrow> False)
      | _ \<Rightarrow> False)"

definition stop_event :: "event \<Rightarrow> bool" where
  "stop_event e =
     (case e of
        Print _ m \<Rightarrow> m = ''Stopping '' @ APP_NAME @ ''...''
      | Ran c _ \<Rightarrow> (case c of Pkill _ \<Rightarrow> True | _ \<Rightarrow> False)
      | _ \<Rightarrow> False)"

definition unprepared :: "event \<Rightarrow> bool" where
  "unprepared e = (\<not> backup_event e \<and> \<not> stop_event e)"


text \<open>
  The events that show a rollback: the line \<^verbatim>\<open>rollback\<close> prints first and the restore
  command, which is the only command that removes the deployment location. An event is
  settled when it is neither. \<open>backed_up\<close>: some backup command of the run exited with
  status 0. \<open>allowed backup_path\<close>: the event belongs to a rollback only if the backup path
  is set, and a restore command only restores from that path.
\<close>

definition rollback_event :: "event \<Rightarrow> bool" where
  "rollback_event e =
     (case e of
        Print _ m \<Rightarrow> m = ''Initiating rollback to previous version...''
      | Ran c _ \<Rightarrow> (case c of RestoreCmd _ \<Rightarrow> True | _ \<Rightarrow> False)
      | _ \<Rightarrow> False)"

definition backup_success :: "event \<Rightarrow> bool" where
  "backup_success e =
     (case e of Ran c x \<Rightarrow> (case c of BackupCmd _ \<Rightarrow> succeeded x | _ \<Rightarrow> False) | _ \<Rightarrow> False)"

definition backed_up :: "event list \<Rightarrow> bool" where
  "backed_up es = list_ex backup_success es"

definition allowed :: "string option \<Rightarrow> event \<Rightarrow> bool" where
  "allowed backup_path e =
     (rollback_event e \<longrightarrow>
        truthy backup_path \<and> (\<forall>q x. e = Ran (RestoreCmd q) x \<longrightarrow> backup_path = Some q))"

definition settled :: "event \<Rightarrow> bool" where
  "settled e = (\<not> rollback_event e)"

text \<open>
  A deployed version with a new build waiting, and an environment in which the backup
  command (the second command of the run) and the start command (the ninth) fail.
\<close>

definition installed :: filesystem where
  "installed = one_version(SOURCE_DIR := Some Directory, SOURCE_DIR @ ''/app'' := Some (File ''v2''))"

definition unlucky :: env where
  "unlucky = still\<lparr>outcome := (\<lambda>c. if c = 1 \<or> c = 8 then Exits 1 [] else Exits 0 [])\<rparr>"

(*DEFS*)

section \<open>Proofs\<close>

subsection \<open>Runs of composite programs\<close>

lemma try_with_run:
  assumes "try_with m k h E s = (r, es, s')"
  obtains (returns) v es1 s1 es2 where "m E s = (Ret v, es1, s1)" "k v E s1 = (r, es2, s')" "es = es1 @ es2"
        | (raises) e es1 s1 es2 where "m E s = (Raise e, es1, s1)" "h e E s1 = (r, es2, s')" "es = es1 @ es2"
  using assms unfolding try_with_def
  by (auto split: prod.splits res.splits)

lemma bnd_run:
  assumes "bnd m k E s = (r, es, s')"
  obtains (returns) v es1 s1 es2 where "m E s = (Ret v, es1, s1)" "k v E s1 = (r, es2, s')" "es = es1 @ es2"
        | (raises) e where "m E s = (Raise e, es, s')" "r = Raise e"
  using assms unfolding bnd_def try_with_def raise_def
  by (auto split: prod.splits res.splits)

lemma seq_run:
  assumes "seq m k E s = (r, es, s')"
  obtains (returns) v es1 s1 es2 where "m E s = (Ret v, es1, s1)" "k E s1 = (r, es2, s')" "es = es1 @ es2"
        | (raises) e where "m E s = (Raise e, es, s')" "r = Raise e"
  using assms unfolding seq_def by (erule bnd_run)

lemma catch_run:
  assumes "catch m h E s = (r, es, s')"
  obtains (returns) v where "m E s = (Ret v, es, s')" "r = Ret v"
        | (raises) e es1 s1 es2 where "m E s = (Raise e, es1, s1)" "h e E s1 = (r, es2, s')" "es = es1 @ es2"
  using assms unfolding catch_def try_with_def ret_def
  by (auto split: prod.splits res.splits)

subsection \<open>emits\<close>

lemma emitsD: "emits P m \<Longrightarrow> m E s = (r, es, s') \<Longrightarrow> e \<in> set es \<Longrightarrow> P e"
  unfolding emits_def list_all_iff by (metis fst_conv snd_conv)

lemma emits_ret: "emits P (ret v)"
  by (simp add: emits_def ret_def)

lemma emits_raise: "emits P (raise e)"
  by (simp add: emits_def raise_def)

lemma emitsI: "(\<And>E s r es s' e. m E s = (r, es, s') \<Longrightarrow> e \<in> set es \<Longrightarrow> P e) \<Longrightarrow> emits P m"
  unfolding emits_def list_all_iff by (metis prod.collapse)

lemma emits_try_with:
  assumes "emits P m" and "\<And>v. emits P (k v)" and "\<And>e. emits P (h e)"
  shows "emits P (try_with m k h)"
proof (rule emitsI)
  fix E s r es s' e
  assume run: "try_with m k h E s = (r, es, s')" and e: "e \<in> set es"
  from run show "P e"
  proof (cases rule: try_with_run)
    case (returns v es1 s1 es2)
    with e assms(1) assms(2)[of v] show ?thesis by (auto dest: emitsD)
  next
    case (raises x es1 s1 es2)
    with e assms(1) assms(3)[of x] show ?thesis by (auto dest: emitsD)
  qed
qed

lemma emits_bnd: "emits P m \<Longrightarrow> (\<And>v. emits P (k v)) \<Longrightarrow> emits P (bnd m k)"
  unfolding bnd_def by (intro emits_try_with emits_raise)

lemma emits_seq: "emits P m \<Longrightarrow> emits P k \<Longrightarrow> emits P (seq m k)"
  unfolding seq_def by (intro emits_bnd)

lemma emits_catch: "emits P m \<Longrightarrow> (\<And>e. emits P (h e)) \<Longrightarrow> emits P (catch m h)"
  unfolding catch_def by (intro emits_try_with emits_ret)

lemma emits_only_if: "(b \<Longrightarrow> emits P m) \<Longrightarrow> emits P (only_if b m)"
  by (simp add: only_if_def emits_ret)

lemma emits_if: "(b \<Longrightarrow> emits P m) \<Longrightarrow> (\<not> b \<Longrightarrow> emits P k) \<Longrightarrow> emits P (if b then m else k)"
  by simp

lemma emits_let: "emits P (f x) \<Longrightarrow> emits P (Let x f)"
  by simp

lemma emits_case_exn:
  "emits P a \<Longrightarrow> (\<And>c t. emits P (b c t)) \<Longrightarrow> (\<And>m. emits P (d m)) \<Longrightarrow>
   emits P (case e of KeyboardInterrupt \<Rightarrow> a | TimeoutExpired c t \<Rightarrow> b c t | OtherError m \<Rightarrow> d m)"
  by (cases e) simp_all

lemma emits_case_option:
  "emits P a \<Longrightarrow> (\<And>x. emits P (b x)) \<Longrightarrow> emits P (case v of None \<Rightarrow> a | Some x \<Rightarrow> b x)"
  by (cases v) simp_all

lemma emits_case_prod:
  "(\<And>x y. emits P (f x y)) \<Longrightarrow> emits P (case v of (x, y) \<Rightarrow> f x y)"
  by (cases v) simp

lemma emits_print_line: "P (Print l message) \<Longrightarrow> emits P (print_line l message)"
  by (simp add: emits_def print_line_def operation_def)

lemma emits_time_sleep: "P (Slept n) \<Longrightarrow> emits P (time_sleep n)"
  by (simp add: emits_def time_sleep_def operation_def)

lemma emits_os_path_exists: "emits P (os_path_exists p)"
  by (simp add: emits_def os_path_exists_def operation_def)

lemma emits_datetime_now: "emits P datetime_now"
  by (simp add: emits_def datetime_now_def operation_def)

lemma emits_time_time: "emits P time_time"
  by (simp add: emits_def time_time_def operation_def)

lemma emits_subprocess_run: "(\<And>x. P (Ran command x)) \<Longrightarrow> emits P (subprocess_run command timeout)"
  by (simp add: emits_def subprocess_run_def operation_def Let_def split: completion.splits option.splits)

lemmas print_defs = print_info_def print_success_def print_warning_def print_error_def print_plain_def

lemmas emits_rules = emits_ret emits_raise emits_bnd emits_seq emits_catch emits_only_if emits_if emits_let
  emits_case_exn emits_case_option emits_case_prod emits_print_line emits_time_sleep emits_os_path_exists
  emits_datetime_now emits_time_time emits_subprocess_run

lemma emits_run_command:
  "(\<And>m. P (Print INFO m)) \<Longrightarrow> (\<And>m. P (Print SUCCESS m)) \<Longrightarrow> (\<And>m. P (Print ERROR m)) \<Longrightarrow> (\<And>x. P (Ran command x)) \<Longrightarrow> emits P (run_command command description)"
  unfolding run_command_def print_defs
  by (intro emits_rules) 


subsection \<open>tame\<close>

lemma calm_from_mono:
  "calm_from E s \<Longrightarrow> steps s \<le> steps s' \<Longrightarrow> calls s \<le> calls s' \<Longrightarrow> calm_from E s'"
  unfolding calm_from_def by (meson le_trans)

lemma once_mono:
  "once E s \<Longrightarrow> steps s \<le> steps s' \<Longrightarrow> calls s \<le> calls s' \<Longrightarrow> once E s'"
  unfolding once_def by (meson le_trans)

lemma tameD:
  assumes "tame lax m" and "m E s = (r, es, s')"
  shows "steps s \<le> steps s'" and "calls s \<le> calls s'"
    and "r = Raise e \<Longrightarrow> (lax \<and> is_timeout e) \<or> (\<not> calm_from E s \<and> (once E s \<longrightarrow> calm_from E s'))"
  using assms unfolding tame_def by blast+

lemma tame_returns:
  assumes "tame False m" and "calm_from E s" and "m E s = (r, es, s')"
  shows "\<exists>v. r = Ret v"
  using tameD(3)[OF assms(1,3)] assms(2) by (cases r) auto

lemma tame_ret: "tame lax (ret v)"
  by (simp add: tame_def ret_def)

lemma tame_bnd:
  assumes "tame lax m" and "\<And>v. tame lax (k v)"
  shows "tame lax (bnd m k)"
  unfolding tame_def
proof (intro allI impI)
  fix E s r es s'
  assume run: "bnd m k E s = (r, es, s')"
  from run show "steps s \<le> steps s' \<and> calls s \<le> calls s' \<and>
        (\<forall>e. r = Raise e \<longrightarrow>
           (lax \<and> is_timeout e) \<or> (\<not> calm_from E s \<and> (once E s \<longrightarrow> calm_from E s')))"
  proof (cases rule: bnd_run)
    case (returns v es1 s1 es2)
    note a = tameD[OF assms(1) returns(1)] and b = tameD[OF assms(2) returns(2)]
    show ?thesis
      using a(1,2) b calm_from_mono[OF _ a(1,2)] once_mono[OF _ a(1,2)]
      by (metis le_trans)
  next
    case (raises e)
    note a = tameD[OF assms(1) raises(1)]
    show ?thesis using a raises(2) by auto
  qed
qed

lemma tame_seq: "tame lax m \<Longrightarrow> tame lax k \<Longrightarrow> tame lax (seq m k)"
  unfolding seq_def by (intro tame_bnd)

lemma tame_catch:
  assumes "tame True m" and "\<And>e. e \<noteq> KeyboardInterrupt \<Longrightarrow> tame lax (h e)"
    and "h KeyboardInterrupt = raise KeyboardInterrupt"
  shows "tame lax (catch m h)"
  unfolding tame_def
proof (intro allI impI)
  fix E s r es s'
  assume run: "catch m h E s = (r, es, s')"
  from run show "steps s \<le> steps s' \<and> calls s \<le> calls s' \<and>
        (\<forall>e. r = Raise e \<longrightarrow>
           (lax \<and> is_timeout e) \<or> (\<not> calm_from E s \<and> (once E s \<longrightarrow> calm_from E s')))"
  proof (cases rule: catch_run)
    case (returns v)
    with tameD(1,2)[OF assms(1) returns(1)] show ?thesis by simp
  next
    case (raises e es1 s1 es2)
    note a = tameD[OF assms(1) raises(1)]
    show ?thesis
    proof (cases "e = KeyboardInterrupt")
      case True
      with raises(2) assms(3) have "r = Raise KeyboardInterrupt" "s' = s1"
        by (simp_all add: raise_def)
      with a True show ?thesis by (auto simp: is_timeout_def)
    next
      case False
      note b = tameD[OF assms(2)[OF False] raises(2)]
      show ?thesis
        using a(1,2) b calm_from_mono[OF _ a(1,2)] once_mono[OF _ a(1,2)]
        by (metis le_trans)
    qed
  qed
qed

lemma tame_only_if: "(b \<Longrightarrow> tame lax m) \<Longrightarrow> tame lax (only_if b m)"
  by (simp add: only_if_def tame_ret)

lemma tame_if: "(b \<Longrightarrow> tame lax m) \<Longrightarrow> (\<not> b \<Longrightarrow> tame lax k) \<Longrightarrow> tame lax (if b then m else k)"
  by simp

lemma tame_let: "tame lax (f x) \<Longrightarrow> tame lax (Let x f)"
  by simp

lemma tame_case_option:
  "tame lax a \<Longrightarrow> (\<And>x. tame lax (b x)) \<Longrightarrow> tame lax (case v of None \<Rightarrow> a | Some x \<Rightarrow> b x)"
  by (cases v) simp_all

lemma tame_case_prod:
  "(\<And>x y. tame lax (f x y)) \<Longrightarrow> tame lax (case v of (x, y) \<Rightarrow> f x y)"
  by (cases v) simp

lemma interrupted_calm:
  assumes "once E s" and "interrupt E (steps s)"
  shows "calm_from E (s\<lparr>steps := Suc (steps s)\<rparr>)"
  unfolding calm_from_def
proof (intro conjI allI impI)
  fix n assume "steps (s\<lparr>steps := Suc (steps s)\<rparr>) \<le> n"
  then have n: "steps s < n" by simp
  show "\<not> interrupt E n"
  proof
    assume "interrupt E n"
    with assms n have "steps s = n" unfolding once_def by (metis le_refl less_imp_le)
    with n show False by simp
  qed
next
  fix c assume "calls (s\<lparr>steps := Suc (steps s)\<rparr>) \<le> c"
  then have "calls s \<le> c" by simp
  with assms show "\<not> fails E c" unfolding once_def by (metis le_refl)
qed

lemma unspawned_calm:
  assumes "once E s" and "fails E (calls s)"
  shows "calm_from E (s\<lparr>steps := Suc (steps s), calls := Suc (calls s)\<rparr>)"
  unfolding calm_from_def
proof (intro conjI allI impI)
  fix n assume "steps (s\<lparr>steps := Suc (steps s), calls := Suc (calls s)\<rparr>) \<le> n"
  then have "steps s \<le> n" by simp
  with assms show "\<not> interrupt E n" unfolding once_def by (metis le_refl)
next
  fix c assume "calls (s\<lparr>steps := Suc (steps s), calls := Suc (calls s)\<rparr>) \<le> c"
  then have c: "calls s < c" by simp
  show "\<not> fails E c"
  proof
    assume "fails E c"
    with assms c have "calls s = c" unfolding once_def by (metis le_refl less_imp_le)
    with c show False by simp
  qed
qed

lemma calm_not_interrupted: "calm_from E s \<Longrightarrow> \<not> interrupt E (steps s)"
  unfolding calm_from_def by simp

lemma calm_not_fails: "calm_from E s \<Longrightarrow> \<not> fails E (calls s)"
  unfolding calm_from_def by simp

lemma tame_effect: "tame lax (operation (\<lambda>E s. (Ret (f E s), g E s, s)))"
  unfolding tame_def
proof (intro allI impI)
  fix E s r es s'
  assume run: "operation (\<lambda>E s. (Ret (f E s), g E s, s)) E s = (r, es, s')"
  show "steps s \<le> steps s' \<and> calls s \<le> calls s' \<and>
        (\<forall>e. r = Raise e \<longrightarrow>
           (lax \<and> is_timeout e) \<or> (\<not> calm_from E s \<and> (once E s \<longrightarrow> calm_from E s')))"
  proof (cases "interrupt E (steps s)")
    case True
    with run have "r = Raise KeyboardInterrupt" "s' = s\<lparr>steps := Suc (steps s)\<rparr>"
      by (simp_all add: operation_def)
    with True show ?thesis
      using interrupted_calm[of E s] calm_not_interrupted[of E s] by auto
  next
    case False
    with run have "\<exists>v. r = Ret v" "s' = s\<lparr>steps := Suc (steps s)\<rparr>"
      by (auto simp add: operation_def)
    then show ?thesis by auto
  qed
qed

lemma tame_print_line: "tame lax (print_line l message)"
  unfolding print_line_def by (rule tame_effect)

lemma tame_time_sleep: "tame lax (time_sleep n)"
  unfolding time_sleep_def by (rule tame_effect)

lemma tame_os_path_exists: "tame lax (os_path_exists p)"
  unfolding os_path_exists_def by (rule tame_effect)

lemma tame_datetime_now: "tame lax datetime_now"
  unfolding datetime_now_def by (rule tame_effect)

lemma tame_time_time: "tame lax time_time"
  unfolding time_time_def by (rule tame_effect)

lemma tame_subprocess_run:
  "lax \<or> timeout = None \<Longrightarrow> tame lax (subprocess_run command timeout)"
  unfolding tame_def
proof (intro allI impI)
  fix E s r es s'
  assume lax: "lax \<or> timeout = None"
    and run: "subprocess_run command timeout E s = (r, es, s')"
  show "steps s \<le> steps s' \<and> calls s \<le> calls s' \<and>
        (\<forall>e. r = Raise e \<longrightarrow>
           (lax \<and> is_timeout e) \<or> (\<not> calm_from E s \<and> (once E s \<longrightarrow> calm_from E s')))"
  proof (cases "interrupt E (steps s)")
    case True
    with run have "r = Raise KeyboardInterrupt" "s' = s\<lparr>steps := Suc (steps s)\<rparr>"
      by (simp_all add: subprocess_run_def operation_def)
    with True show ?thesis
      using interrupted_calm[of E s] calm_not_interrupted[of E s] by auto
  next
    case False
    show ?thesis
    proof (cases "outcome E (calls s)")
      case (Fails m)
      with False run have "r = Raise (OtherError m)"
        "s' = s\<lparr>steps := Suc (steps s), calls := Suc (calls s)\<rparr>"
        by (simp_all add: subprocess_run_def operation_def Let_def)
      moreover from Fails have "fails E (calls s)" by (simp add: fails_def)
      ultimately show ?thesis
        using unspawned_calm[of E s] calm_not_fails[of E s] by auto
    next
      case (Exits rc err)
      with False run lax show ?thesis
        by (auto simp add: subprocess_run_def operation_def Let_def timed_out_def is_timeout_def
            split: option.splits if_splits)
    qed
  qed
qed

lemmas tame_rules = tame_ret tame_bnd tame_seq tame_only_if tame_if tame_let tame_case_option
  tame_case_prod tame_print_line tame_time_sleep tame_os_path_exists tame_datetime_now tame_time_time

lemma tame_run_command: "tame lax (run_command command description)"
  unfolding run_command_def print_defs
  apply (intro tame_rules tame_catch tame_subprocess_run)
    apply simp
  subgoal for e by (cases e) (auto intro!: tame_rules)
  apply simp
  done

lemma tame_check_app_running: "tame lax check_app_running"
  unfolding check_app_running_def print_defs
  by (intro tame_rules tame_subprocess_run) simp

lemma tame_stop_application: "tame lax stop_application"
  unfolding stop_application_def force_kill_def print_defs
  by (intro tame_rules tame_run_command tame_check_app_running)

subsection \<open>Closed forms\<close>

lemma run_command_eq:
  assumes "uninterrupted E"
  shows "run_command command description E s =
    (let x = how_ended E (calls s) command (Some 300) in
     (Ret (succeeded x), described description @ Ran command x # report x,
      s\<lparr>steps := steps s + length (described description @ Ran command x # report x),
        calls := Suc (calls s),
        fs := files_after E (calls s) command x (fs s)\<rparr>))"
  using assms
  by (cases "outcome E (calls s)")
     (auto simp add: uninterrupted_def run_command_def seq_def bnd_def catch_def try_with_def ret_def raise_def
      only_if_def print_defs print_line_def operation_def subprocess_run_def Let_def
      how_ended_def succeeded_def described_def report_def files_after_def timed_out_def
      split: option.splits)

lemma check_app_running_eq:
  assumes "uninterrupted E"
  shows "check_app_running E s =
    (case outcome E (calls s) of
       Fails m \<Rightarrow> (Raise (OtherError m),
          [Print INFO ''Checking if application is running...'', Ran Pgrep (NotSpawned m)],
          s\<lparr>steps := steps s + 2, calls := Suc (calls s)\<rparr>)
     | Exits rc err \<Rightarrow>
         (Ret (status_of E (calls s) Pgrep rc = 0),
          [Print INFO ''Checking if application is running...'',
           Ran Pgrep (Returned (status_of E (calls s) Pgrep rc) err),
           if status_of E (calls s) Pgrep rc = 0
           then Print WARNING (APP_NAME @ '' is currently running'')
           else Print INFO (APP_NAME @ '' is not running'')],
          s\<lparr>steps := steps s + 3, calls := Suc (calls s)\<rparr>))"
  using assms
  by (cases "outcome E (calls s)")
     (auto simp add: uninterrupted_def check_app_running_def seq_def bnd_def try_with_def ret_def raise_def
      print_defs print_line_def operation_def subprocess_run_def Let_def timed_out_def
      effect_def spoil_def writes_files_def)


lemma report_prints: "actions (report x) = []" "actions (described d) = []"
  by (auto simp: actions_def report_def described_def is_print_def split: ran.splits)

subsection \<open>The command runner\<close>




subsection \<open>Stopping the application\<close>

text \<open>
  C7. When the graceful signal is delivered, the process is still found after the grace
  period, and the forced-kill command succeeds, \<^verbatim>\<open>stop_application\<close> sleeps two seconds
  and returns True. The events listed are all there is: no command is spawned after the
  forced kill, so nothing checks again whether the process is running, and the result
  does not depend on what such a check would say.
\<close>

theorem stop_application_forced:
  assumes "uninterrupted E"
    and "how_ended E (calls s) (Pkill SIGTERM) (Some 300) = Returned 0 err1"
    and "how_ended E (Suc (calls s)) Pgrep None = Returned 0 err2"
    and "how_ended E (Suc (Suc (calls s))) (Pkill SIGKILL) (Some 300) = Returned 0 err3"
  shows "result stop_application E s = Ret True \<and>
         events stop_application E s =
           [Print INFO (''Stopping '' @ APP_NAME @ ''...''),
            Print INFO ''Sending SIGTERM (graceful shutdown) signal'',
            Ran (Pkill SIGTERM) (Returned 0 err1),
            Print SUCCESS ''Command completed successfully'',
            Slept 5,
            Print INFO ''Checking if application is running...'',
            Ran Pgrep (Returned 0 err2),
            Print WARNING (APP_NAME @ '' is currently running''),
            Print WARNING ''Graceful shutdown failed, forcing kill...'',
            Print INFO ''Sending SIGKILL signal'',
            Ran (Pkill SIGKILL) (Returned 0 err3),
            Print SUCCESS ''Command completed successfully'',
            Slept 2,
            Print SUCCESS ''Application forcefully stopped''] \<and>
         calls (final stop_application E s) = calls s + 3"
proof -
  from assms(3) obtain rc where pg: "outcome E (Suc (calls s)) = Exits rc err2"
    "status_of E (Suc (calls s)) Pgrep rc = 0"
    by (auto simp: how_ended_def timed_out_def split: completion.splits)
  have ni: "\<And>n. \<not> interrupt E n" using assms(1) by (simp add: uninterrupted_def)
  show ?thesis
    using assms(2,4) pg ni
    by (simp add: stop_application_def force_kill_def result_def events_def final_def
        run_command_eq[OF assms(1)] check_app_running_eq[OF assms(1)]
        seq_def bnd_def try_with_def ret_def raise_def Let_def
        print_defs print_line_def time_sleep_def operation_def
        succeeded_def described_def report_def)
qed

theorem stop_application_forced_witness:
  "uninterrupted still \<and>
   result stop_application still (fresh nothing) = Ret True \<and>
   actions (events stop_application still (fresh nothing)) =
     [Ran (Pkill SIGTERM) (Returned 0 []), Slept 5, Ran Pgrep (Returned 0 []),
      Ran (Pkill SIGKILL) (Returned 0 []), Slept 2] \<and>
   calls (final stop_application still (fresh nothing)) = 3"
  using stop_application_forced[of still "fresh nothing" "[]" "[]" "[]"]
  by (simp add: uninterrupted_def still_def fresh_def how_ended_def timed_out_def status_of_def
      needs_process_def actions_def is_print_def)

text \<open>
  C10. When no process matches the application name, \<^verbatim>\<open>stop_application\<close> returns
  False: the graceful signal command does not succeed (it exits with status 1), so the
  sleep and the check are skipped; the forced-kill command does not succeed either. The
  two \<^verbatim>\<open>pkill\<close> commands are the only actions of the call.
\<close>

theorem stop_application_nothing_to_stop:
  assumes "uninterrupted E"
    and "\<not> matching E (calls s)" and "\<not> matching E (Suc (calls s))"
  shows "result stop_application E s = Ret False \<and>
         actions (events stop_application E s) =
           [Ran (Pkill SIGTERM) (how_ended E (calls s) (Pkill SIGTERM) (Some 300)),
            Ran (Pkill SIGKILL) (how_ended E (Suc (calls s)) (Pkill SIGKILL) (Some 300))] \<and>
         \<not> succeeded (how_ended E (calls s) (Pkill SIGTERM) (Some 300)) \<and>
         \<not> succeeded (how_ended E (Suc (calls s)) (Pkill SIGKILL) (Some 300)) \<and>
         (\<forall>rc err. how_ended E (calls s) (Pkill SIGTERM) (Some 300) = Returned rc err \<longrightarrow> rc = 1) \<and>
         (\<forall>rc err. how_ended E (Suc (calls s)) (Pkill SIGKILL) (Some 300) = Returned rc err \<longrightarrow> rc = 1)"
proof -
  have a: "\<not> succeeded (how_ended E (calls s) (Pkill sg) (Some 300))"
    "\<And>rc err. how_ended E (calls s) (Pkill sg) (Some 300) = Returned rc err \<Longrightarrow> rc = 1" for sg
    using assms(2)
    by (auto simp: how_ended_def succeeded_def status_of_def needs_process_def timed_out_def
        split: completion.splits if_splits)
  have b: "\<not> succeeded (how_ended E (Suc (calls s)) (Pkill sg) (Some 300))"
    "\<And>rc err. how_ended E (Suc (calls s)) (Pkill sg) (Some 300) = Returned rc err \<Longrightarrow> rc = 1" for sg
    using assms(3)
    by (auto simp: how_ended_def succeeded_def status_of_def needs_process_def timed_out_def
        split: completion.splits if_splits)
  have ni: "\<And>n. \<not> interrupt E n" using assms(1) by (simp add: uninterrupted_def)
  have "result stop_application E s = Ret False \<and>
         actions (events stop_application E s) =
           [Ran (Pkill SIGTERM) (how_ended E (calls s) (Pkill SIGTERM) (Some 300)),
            Ran (Pkill SIGKILL) (how_ended E (Suc (calls s)) (Pkill SIGKILL) (Some 300))]"
    using a(1) b(1) ni
    by (simp add: stop_application_def force_kill_def result_def events_def
        run_command_eq[OF assms(1)]
        seq_def bnd_def try_with_def ret_def raise_def Let_def
        print_defs print_line_def operation_def actions_def is_print_def
        described_def report_prints[unfolded actions_def is_print_def])
  with a b show ?thesis by blast
qed

theorem stop_application_nothing_to_stop_witness:
  "uninterrupted (still\<lparr>matching := (\<lambda>_. False)\<rparr>) \<and>
   result stop_application (still\<lparr>matching := (\<lambda>_. False)\<rparr>) (fresh nothing) = Ret False \<and>
   actions (events stop_application (still\<lparr>matching := (\<lambda>_. False)\<rparr>) (fresh nothing)) =
     [Ran (Pkill SIGTERM) (Returned 1 []), Ran (Pkill SIGKILL) (Returned 1 [])]"
  using stop_application_nothing_to_stop[of "still\<lparr>matching := (\<lambda>_. False)\<rparr>" "fresh nothing"]
  by (simp add: uninterrupted_def still_def fresh_def how_ended_def timed_out_def status_of_def
      needs_process_def)

subsection \<open>The health check\<close>

lemma print_line_eq:
  "uninterrupted E \<Longrightarrow> print_line l message E s = (Ret (), [Print l message], s\<lparr>steps := Suc (steps s)\<rparr>)"
  by (simp add: uninterrupted_def print_line_def operation_def)

lemma time_sleep_eq:
  "uninterrupted E \<Longrightarrow> time_sleep n E s = (Ret (), [Slept n], s\<lparr>steps := Suc (steps s)\<rparr>)"
  by (simp add: uninterrupted_def time_sleep_def operation_def)

lemma probe_eq:
  assumes "uninterrupted E"
  shows "\<exists>line. probe attempt E s =
    (Ret (probe_ok E (calls s)), [Ran Curl (how_ended E (calls s) Curl (Some 5)), Print (fst line) (snd line)],
     s\<lparr>steps := steps s + 2, calls := Suc (calls s)\<rparr>)"
  using assms
  by (cases "outcome E (calls s)")
     (auto simp add: uninterrupted_def probe_def seq_def bnd_def catch_def try_with_def ret_def raise_def
      print_defs print_line_def operation_def subprocess_run_def Let_def probe_ok_def
      how_ended_def succeeded_def timed_out_def effect_def spoil_def writes_files_def)

lemma schedule_counts:
  "length (filter is_probe (schedule E c n)) = n"
  "length (filter is_sleep (schedule E c n)) = n - 1"
  by (induction E c n rule: schedule.induct) (simp_all add: is_probe_def is_sleep_def)

lemma health_loop_schedule:
  assumes "uninterrupted E"
  shows "Suc N - a = n \<Longrightarrow>
     ((\<forall>i<n. \<not> probe_ok E (calls s + i)) \<longrightarrow>
        result (health_loop N a) E s = Ret False \<and>
        actions (events (health_loop N a) E s) = schedule E (calls s) n) \<and>
     (\<forall>k<n. (\<forall>i<k. \<not> probe_ok E (calls s + i)) \<and> probe_ok E (calls s + k) \<longrightarrow>
        result (health_loop N a) E s = Ret True \<and>
        actions (events (health_loop N a) E s) = schedule E (calls s) (Suc k))"
proof (induction n arbitrary: a s)
  case 0
  then have "\<not> a \<le> N" by simp
  then show ?case
    by (simp add: health_loop.simps[of N a] result_def events_def actions_def is_print_def
        seq_def bnd_def try_with_def ret_def print_defs print_line_eq[OF assms])
next
  case (Suc n)
  then have le: "a \<le> N" and n: "Suc N - (a + 1) = n" by simp_all
  let ?s1 = "s\<lparr>steps := Suc (steps s)\<rparr>"
  obtain line where p: "probe a E ?s1 =
    (Ret (probe_ok E (calls s)), [Ran Curl (how_ended E (calls s) Curl (Some 5)), Print (fst line) (snd line)],
     ?s1\<lparr>steps := steps ?s1 + 2, calls := Suc (calls ?s1)\<rparr>)"
    using probe_eq[OF assms, of a ?s1] by auto
  show ?case
  proof (cases "probe_ok E (calls s)")
    case True
    have "result (health_loop N a) E s = Ret True"
      "actions (events (health_loop N a) E s) = schedule E (calls s) (Suc 0)"
      using le True p
      by (simp_all add: health_loop.simps[of N a] result_def events_def actions_def is_print_def
          seq_def bnd_def try_with_def ret_def print_defs print_line_eq[OF assms])
    moreover have "\<forall>k. (\<forall>i<k. \<not> probe_ok E (calls s + i)) \<longrightarrow> k = 0"
    proof (intro allI impI)
      fix k assume "\<forall>i<k. \<not> probe_ok E (calls s + i)"
      with True show "k = 0" by (cases k) auto
    qed
    ultimately show ?thesis using True by (metis add.right_neutral zero_less_Suc)
  next
    case False
    let ?s2 = "?s1\<lparr>steps := steps ?s1 + 2, calls := Suc (calls ?s1)\<rparr>"
    let ?s3 = "if a < N then ?s2\<lparr>steps := Suc (steps ?s2)\<rparr> else ?s2"
    have c3: "calls ?s3 = Suc (calls s)" by simp
    have r: "result (health_loop N a) E s = result (health_loop N (a + 1)) E ?s3"
      and e: "actions (events (health_loop N a) E s) =
        Ran Curl (how_ended E (calls s) Curl (Some 5)) #
        (if a < N then [Slept 5] else []) @ actions (events (health_loop N (a + 1)) E ?s3)"
      using le False p
      by (simp_all add: health_loop.simps[of N a] result_def events_def actions_def is_print_def
          seq_def bnd_def try_with_def ret_def only_if_def print_defs print_line_eq[OF assms]
          time_sleep_eq[OF assms] split_beta)
    note IH = Suc.IH[OF n, of ?s3, unfolded c3]
    show ?thesis
    proof (intro conjI impI allI)
      assume all: "\<forall>i<Suc n. \<not> probe_ok E (calls s + i)"
      then have "\<forall>i<n. \<not> probe_ok E (Suc (calls s) + i)" by auto
      with IH have "result (health_loop N (a + 1)) E ?s3 = Ret False"
        "actions (events (health_loop N (a + 1)) E ?s3) = schedule E (Suc (calls s)) n" by blast+
      with r e n le show "result (health_loop N a) E s = Ret False"
        "actions (events (health_loop N a) E s) = schedule E (calls s) (Suc n)"
        by (cases n; auto)+
    next
      fix k
      assume k: "k < Suc n"
        and h: "(\<forall>i<k. \<not> probe_ok E (calls s + i)) \<and> probe_ok E (calls s + k)"
      with False obtain j where j: "k = Suc j" by (cases k) auto
      with k h have "j < n" "(\<forall>i<j. \<not> probe_ok E (Suc (calls s) + i)) \<and> probe_ok E (Suc (calls s) + j)"
        by auto
      with IH have "result (health_loop N (a + 1)) E ?s3 = Ret True"
        "actions (events (health_loop N (a + 1)) E ?s3) = schedule E (Suc (calls s)) (Suc j)" by blast+
      with r e n le j \<open>j < n\<close> show "result (health_loop N a) E s = Ret True"
        "actions (events (health_loop N a) E s) = schedule E (calls s) (Suc k)"
        by auto
    qed
  qed
qed


lemma filter_actions:
  "filter is_probe (actions es) = filter is_probe es" "filter is_sleep (actions es) = filter is_sleep es"
  unfolding actions_def
  by (induction es) (auto simp: is_probe_def is_sleep_def is_print_def split: event.splits)

lemma health_check_loop:
  assumes "uninterrupted E"
  shows "result health_check E s = result (health_loop 12 1) E (s\<lparr>steps := Suc (steps s)\<rparr>)"
    and "actions (events health_check E s) =
         actions (events (health_loop 12 1) E (s\<lparr>steps := Suc (steps s)\<rparr>))"
  by (simp_all add: health_check_def result_def events_def actions_def is_print_def
      seq_def bnd_def try_with_def print_defs print_line_eq[OF assms] split_beta)

text \<open>
  C4. In a run that is not interrupted, the health check loop with \<open>N\<close> attempts, started
  at attempt 1: if every probe fails, it returns False after exactly \<open>N\<close> probes and
  \<open>N - 1\<close> sleeps; if the probe first succeeds at attempt \<open>k \<le> N\<close>, it returns True after
  exactly \<open>k\<close> probes and \<open>k - 1\<close> sleeps. In both cases the probes and sleeps alternate,
  with no sleep after the last probe. \<^verbatim>\<open>health_check\<close> is the loop with twelve attempts.
\<close>

theorem health_loop_attempts:
  assumes "uninterrupted E"
  shows "((\<forall>i<N. \<not> probe_ok E (calls s + i)) \<longrightarrow>
            result (health_loop N 1) E s = Ret False \<and>
            length (filter is_probe (events (health_loop N 1) E s)) = N \<and>
            length (filter is_sleep (events (health_loop N 1) E s)) = N - 1 \<and>
            actions (events (health_loop N 1) E s) = schedule E (calls s) N) \<and>
         (\<forall>k. 1 \<le> k \<and> k \<le> N \<and> (\<forall>i<k - 1. \<not> probe_ok E (calls s + i)) \<and>
               probe_ok E (calls s + (k - 1)) \<longrightarrow>
            result (health_loop N 1) E s = Ret True \<and>
            length (filter is_probe (events (health_loop N 1) E s)) = k \<and>
            length (filter is_sleep (events (health_loop N 1) E s)) = k - 1 \<and>
            actions (events (health_loop N 1) E s) = schedule E (calls s) k) \<and>
         result health_check E s = result (health_loop 12 1) E (s\<lparr>steps := Suc (steps s)\<rparr>) \<and>
         actions (events health_check E s) =
           actions (events (health_loop 12 1) E (s\<lparr>steps := Suc (steps s)\<rparr>))"
proof -
  have n: "Suc N - 1 = N" by simp
  note L = health_loop_schedule[OF assms n, of s]
  have A: "result (health_loop N 1) E s = Ret False \<and>
            length (filter is_probe (events (health_loop N 1) E s)) = N \<and>
            length (filter is_sleep (events (health_loop N 1) E s)) = N - 1 \<and>
            actions (events (health_loop N 1) E s) = schedule E (calls s) N"
    if "\<forall>i<N. \<not> probe_ok E (calls s + i)"
  proof -
    from L that have r: "result (health_loop N 1) E s = Ret False"
      and a: "actions (events (health_loop N 1) E s) = schedule E (calls s) N" by blast+
    from a show ?thesis
      using r filter_actions[of "events (health_loop N 1) E s"] schedule_counts[of E "calls s" N]
      by simp
  qed
  have B: "result (health_loop N 1) E s = Ret True \<and>
            length (filter is_probe (events (health_loop N 1) E s)) = k \<and>
            length (filter is_sleep (events (health_loop N 1) E s)) = k - 1 \<and>
            actions (events (health_loop N 1) E s) = schedule E (calls s) k"
    if "1 \<le> k \<and> k \<le> N \<and> (\<forall>i<k - 1. \<not> probe_ok E (calls s + i)) \<and>
        probe_ok E (calls s + (k - 1))" for k
  proof -
    from that obtain j where j: "k = Suc j" by (cases k) auto
    with that have "j < N" "(\<forall>i<j. \<not> probe_ok E (calls s + i)) \<and> probe_ok E (calls s + j)"
      by auto
    with L have r: "result (health_loop N 1) E s = Ret True"
      and a: "actions (events (health_loop N 1) E s) = schedule E (calls s) (Suc j)" by blast+
    from a show ?thesis
      using r j filter_actions[of "events (health_loop N 1) E s"]
        schedule_counts[of E "calls s" "Suc j"]
      by simp
  qed
  from A B health_check_loop[OF assms, of s] show ?thesis by blast
qed

theorem health_loop_attempts_witness:
  "uninterrupted flaky \<and>
   \<not> probe_ok flaky 0 \<and> \<not> probe_ok flaky 1 \<and> probe_ok flaky 2 \<and>
   result (health_loop 3 1) flaky (fresh nothing) = Ret True \<and>
   length (filter is_probe (events (health_loop 3 1) flaky (fresh nothing))) = 3 \<and>
   length (filter is_sleep (events (health_loop 3 1) flaky (fresh nothing))) = 2 \<and>
   \<not> probe_ok (still\<lparr>outcome := (\<lambda>_. Exits 22 [])\<rparr>) 0 \<and>
   \<not> probe_ok (still\<lparr>outcome := (\<lambda>_. Exits 22 [])\<rparr>) 1 \<and>
   result (health_loop 2 1) (still\<lparr>outcome := (\<lambda>_. Exits 22 [])\<rparr>) (fresh nothing) = Ret False \<and>
   length (filter is_probe
     (events (health_loop 2 1) (still\<lparr>outcome := (\<lambda>_. Exits 22 [])\<rparr>) (fresh nothing))) = 2 \<and>
   length (filter is_sleep
     (events (health_loop 2 1) (still\<lparr>outcome := (\<lambda>_. Exits 22 [])\<rparr>) (fresh nothing))) = 1"
proof -
  have u: "uninterrupted flaky" "uninterrupted (still\<lparr>outcome := (\<lambda>_. Exits 22 [])\<rparr>)"
    by (simp_all add: uninterrupted_def flaky_def still_def)
  have p: "\<not> probe_ok flaky 0" "\<not> probe_ok flaky 1" "probe_ok flaky 2"
    "\<And>i. \<not> probe_ok (still\<lparr>outcome := (\<lambda>_. Exits 22 [])\<rparr>) i"
    by (simp_all add: probe_ok_def flaky_def still_def how_ended_def succeeded_def timed_out_def
        status_of_def needs_process_def)
  have q: "\<forall>i<3 - 1. \<not> probe_ok flaky (calls (fresh nothing) + i)"
  proof (intro allI impI)
    fix i :: nat assume "i < 3 - 1"
    then have "i = 0 \<or> i = 1" by auto
    with p show "\<not> probe_ok flaky (calls (fresh nothing) + i)" by (auto simp: fresh_def)
  qed
  have c: "calls (fresh nothing) + (3 - 1) = 2" by (simp add: fresh_def)
  have prem: "1 \<le> (3::nat) \<and> (3::nat) \<le> 3 \<and>
      (\<forall>i<3 - 1. \<not> probe_ok flaky (calls (fresh nothing) + i)) \<and>
      probe_ok flaky (calls (fresh nothing) + (3 - 1))"
    using q p(3) c by (simp add: numeral_2_eq_2)
  from health_loop_attempts[OF u(1), of 3 "fresh nothing", THEN conjunct2, THEN conjunct1,
      THEN spec, of 3, THEN mp, OF prem]
  have a: "result (health_loop 3 1) flaky (fresh nothing) = Ret True \<and>
   length (filter is_probe (events (health_loop 3 1) flaky (fresh nothing))) = 3 \<and>
   length (filter is_sleep (events (health_loop 3 1) flaky (fresh nothing))) = 2"
    by simp
  have prem2: "\<forall>i<2. \<not> probe_ok (still\<lparr>outcome := (\<lambda>_. Exits 22 [])\<rparr>) (calls (fresh nothing) + i)"
    using p(4) by blast
  from health_loop_attempts[OF u(2), of 2 "fresh nothing", THEN conjunct1, THEN mp, OF prem2]
  have b: "result (health_loop 2 1) (still\<lparr>outcome := (\<lambda>_. Exits 22 [])\<rparr>) (fresh nothing) = Ret False \<and>
   length (filter is_probe
     (events (health_loop 2 1) (still\<lparr>outcome := (\<lambda>_. Exits 22 [])\<rparr>) (fresh nothing))) = 2 \<and>
   length (filter is_sleep
     (events (health_loop 2 1) (still\<lparr>outcome := (\<lambda>_. Exits 22 [])\<rparr>) (fresh nothing))) = 1"
    by simp
  from u p a b show ?thesis by blast
qed

subsection \<open>Programs that keep the files\<close>

lemma keeps_filesD: "keeps_files m \<Longrightarrow> m E s = (r, es, s') \<Longrightarrow> fs s' = fs s"
  unfolding keeps_files_def by (metis snd_conv)

lemma keeps_filesI: "(\<And>E s r es s'. m E s = (r, es, s') \<Longrightarrow> fs s' = fs s) \<Longrightarrow> keeps_files m"
  unfolding keeps_files_def by (metis prod.collapse)

lemma keeps_ret: "keeps_files (ret v)"
  by (simp add: keeps_files_def ret_def)

lemma keeps_raise: "keeps_files (raise e)"
  by (simp add: keeps_files_def raise_def)

lemma keeps_try_with:
  assumes "keeps_files m" and "\<And>v. keeps_files (k v)" and "\<And>e. keeps_files (h e)"
  shows "keeps_files (try_with m k h)"
proof (rule keeps_filesI)
  fix E s r es s'
  assume "try_with m k h E s = (r, es, s')"
  then show "fs s' = fs s"
  proof (cases rule: try_with_run)
    case (returns v es1 s1 es2)
    with keeps_filesD[OF assms(1)] keeps_filesD[OF assms(2)] show ?thesis by metis
  next
    case (raises e es1 s1 es2)
    with keeps_filesD[OF assms(1)] keeps_filesD[OF assms(3)] show ?thesis by metis
  qed
qed

lemma keeps_bnd: "keeps_files m \<Longrightarrow> (\<And>v. keeps_files (k v)) \<Longrightarrow> keeps_files (bnd m k)"
  unfolding bnd_def by (intro keeps_try_with keeps_raise)

lemma keeps_seq: "keeps_files m \<Longrightarrow> keeps_files k \<Longrightarrow> keeps_files (seq m k)"
  unfolding seq_def by (intro keeps_bnd)

lemma keeps_catch: "keeps_files m \<Longrightarrow> (\<And>e. keeps_files (h e)) \<Longrightarrow> keeps_files (catch m h)"
  unfolding catch_def by (intro keeps_try_with keeps_ret)

lemma keeps_only_if: "(b \<Longrightarrow> keeps_files m) \<Longrightarrow> keeps_files (only_if b m)"
  by (simp add: only_if_def keeps_ret)

lemma keeps_if: "(b \<Longrightarrow> keeps_files m) \<Longrightarrow> (\<not> b \<Longrightarrow> keeps_files k) \<Longrightarrow> keeps_files (if b then m else k)"
  by simp

lemma keeps_case_exn:
  "keeps_files a \<Longrightarrow> (\<And>c t. keeps_files (b c t)) \<Longrightarrow> (\<And>m. keeps_files (d m)) \<Longrightarrow>
   keeps_files (case e of KeyboardInterrupt \<Rightarrow> a | TimeoutExpired c t \<Rightarrow> b c t | OtherError m \<Rightarrow> d m)"
  by (cases e) simp_all

lemma keeps_print_line: "keeps_files (print_line l message)"
  by (simp add: keeps_files_def print_line_def operation_def)

lemma keeps_time_sleep: "keeps_files (time_sleep n)"
  by (simp add: keeps_files_def time_sleep_def operation_def)

lemma keeps_os_path_exists: "keeps_files (os_path_exists p)"
  by (simp add: keeps_files_def os_path_exists_def operation_def)

lemma keeps_datetime_now: "keeps_files datetime_now"
  by (simp add: keeps_files_def datetime_now_def operation_def)

lemma keeps_subprocess_run:
  "\<not> writes_files command \<Longrightarrow> keeps_files (subprocess_run command timeout)"
  by (cases command)
     (simp_all add: keeps_files_def subprocess_run_def operation_def Let_def writes_files_def
      effect_def spoil_def split: completion.splits option.splits)

lemmas keeps_rules = keeps_ret keeps_raise keeps_bnd keeps_seq keeps_catch keeps_only_if keeps_if
  keeps_case_exn keeps_print_line keeps_time_sleep keeps_os_path_exists keeps_datetime_now
  keeps_subprocess_run

lemma keeps_run_command:
  "\<not> writes_files command \<Longrightarrow> keeps_files (run_command command description)"
  unfolding run_command_def print_defs by (intro keeps_rules)



subsection \<open>Laws of sequencing\<close>

lemma bnd_ret: "bnd (ret v) k = k v"
  by (intro ext) (simp add: bnd_def try_with_def ret_def split: prod.splits)

lemma bnd_assoc: "bnd (bnd m f) g = bnd m (\<lambda>x. bnd (f x) g)"
  by (intro ext) (simp add: bnd_def try_with_def raise_def split: prod.splits res.splits)

lemma bnd_seq: "bnd (seq a b) k = seq a (bnd b k)"
  by (simp add: seq_def bnd_assoc)

lemma bnd_if: "bnd (if c then a else b) k = (if c then bnd a k else bnd b k)"
  by simp

lemma start_application_cases:
  "start_application =
     seq (print_info (''Starting '' @ APP_NAME @ ''...''))
       (bnd (os_path_exists (DEPLOY_DIR @ ''/start.sh''))
          (\<lambda>exists.
             if \<not> exists
             then seq (print_warning (''Start script not found: '' @ DEPLOY_DIR @ ''/start.sh''))
                    (seq (print_info ''Attempting alternative start method...'')
                       (bnd (run_command StartDirect ''Executing start command'')
                          (\<lambda>started.
                             if started
                             then seq (time_sleep 3)
                                    (seq (print_success ''Application started'') (ret True))
                             else seq (print_error ''Failed to start application'') (ret False))))
             else bnd (run_command StartScript ''Executing start command'')
                    (\<lambda>started.
                       if started
                       then seq (time_sleep 3)
                              (seq (print_success ''Application started'') (ret True))
                       else seq (print_error ''Failed to start application'') (ret False))))"
  unfolding start_application_def
  by (simp add: bnd_if bnd_seq bnd_ret cong: if_cong)


subsection \<open>Runs of the primitive operations\<close>

lemma ret_run: "ret v E s = (r, es, s') \<Longrightarrow> r = Ret v \<and> es = [] \<and> s' = s"
  by (auto simp: ret_def)

lemma raise_run: "raise e E s = (r, es, s') \<Longrightarrow> r = Raise e \<and> es = [] \<and> s' = s"
  by (auto simp: raise_def)

lemma print_line_run:
  assumes "print_line l m E s = (r, es, s')"
  obtains (printed) "r = Ret ()" "es = [Print l m]" "s' = s\<lparr>steps := Suc (steps s)\<rparr>"
        | (interrupted) "r = Raise KeyboardInterrupt" "es = []" "s' = s\<lparr>steps := Suc (steps s)\<rparr>"
  using assms by (auto simp: print_line_def operation_def split: if_splits)

lemma subprocess_run_run:
  assumes "subprocess_run command timeout E s = (r, es, s')"
  obtains (returned) rc err where "r = Ret \<lparr>returncode = rc, stderr = err\<rparr>"
            "es = [Ran command (Returned rc err)]"
            "fs s' = (if rc = 0 then effect command (fs s) else spoil E (calls s) command (fs s))"
            "calls s' = Suc (calls s)"
        | (failed) e x where "r = Raise e" "es = [Ran command x]" "\<forall>rc err. x \<noteq> Returned rc err"
            "e \<noteq> KeyboardInterrupt" "calls s' = Suc (calls s)"
        | (interrupted) "r = Raise KeyboardInterrupt" "es = []" "s' = s\<lparr>steps := Suc (steps s)\<rparr>"
  using assms
  by (auto simp: subprocess_run_def operation_def Let_def
      split: if_splits completion.splits option.splits)

lemma run_command_files:
  assumes "run_command command description E s = (r, es, s')"
  shows "((\<exists>err. Ran command (Returned 0 err) \<in> set es) \<longrightarrow> fs s' = effect command (fs s)) \<and>
     (r = Ret True \<longrightarrow> (\<exists>err. Ran command (Returned 0 err) \<in> set es)) \<and>
     (\<forall>c x. Ran c x \<in> set es \<longrightarrow> c = command)"
  using assms unfolding run_command_def print_defs only_if_def
  by (auto elim!: seq_run catch_run bnd_run print_line_run subprocess_run_run
      dest!: ret_run raise_run split: if_splits exn.splits)

subsection \<open>More runs of primitive operations, and summaries of a command run\<close>

lemma time_sleep_run:
  assumes "time_sleep n E s = (r, es, s')"
  obtains (slept) "r = Ret ()" "es = [Slept n]" "s' = s\<lparr>steps := Suc (steps s)\<rparr>"
        | (interrupted) "r = Raise KeyboardInterrupt" "es = []" "s' = s\<lparr>steps := Suc (steps s)\<rparr>"
  using assms by (auto simp: time_sleep_def operation_def split: if_splits)

lemma os_path_exists_run:
  assumes "os_path_exists p E s = (r, es, s')"
  obtains (answered) "r = Ret (fs s p \<noteq> None)" "es = []" "s' = s\<lparr>steps := Suc (steps s)\<rparr>"
        | (interrupted) "r = Raise KeyboardInterrupt" "es = []" "s' = s\<lparr>steps := Suc (steps s)\<rparr>"
  using assms by (auto simp: os_path_exists_def operation_def split: if_splits)

lemma datetime_now_run:
  assumes "datetime_now E s = (r, es, s')"
  obtains (read) "r = Ret (now E (steps s))" "es = []" "s' = s\<lparr>steps := Suc (steps s)\<rparr>"
        | (interrupted) "r = Raise KeyboardInterrupt" "es = []" "s' = s\<lparr>steps := Suc (steps s)\<rparr>"
  using assms by (auto simp: datetime_now_def operation_def split: if_splits)

lemma time_time_run:
  assumes "time_time E s = (r, es, s')"
  obtains (read) "r = Ret (clock E (steps s))" "es = []" "s' = s\<lparr>steps := Suc (steps s)\<rparr>"
        | (interrupted) "r = Raise KeyboardInterrupt" "es = []" "s' = s\<lparr>steps := Suc (steps s)\<rparr>"
  using assms by (auto simp: time_time_def operation_def split: if_splits)

lemmas prim_runs = print_line_run time_sleep_run os_path_exists_run datetime_now_run time_time_run
lemmas comb_runs = seq_run bnd_run catch_run

lemma succeeded_run_simps [simp]:
  "\<not> succeeded_run c (Print l m)" "\<not> succeeded_run c (Slept n)"
  "\<not> succeeded_run c (Notification a b d e f)"
  "succeeded_run c (Ran c' x) = (c' = c \<and> succeeded x)"
  by (simp_all add: succeeded_run_def)

lemma succeeded_simps [simp]:
  "succeeded (Returned rc err) = (rc = 0)" "\<not> succeeded TimedOut" "\<not> succeeded (NotSpawned m)"
  by (simp_all add: succeeded_def)

lemma ran_ok_simps [simp]:
  "\<not> ran_ok c []" "ran_ok c (e # es) = (succeeded_run c e \<or> ran_ok c es)"
  "ran_ok c (es @ es') = (ran_ok c es \<or> ran_ok c es')"
  by (simp_all add: ran_ok_def)

lemma ran_ok_iff: "ran_ok c es = (\<exists>err. Ran c (Returned 0 err) \<in> set es)"
proof (induction es)
  case Nil
  then show ?case by simp
next
  case (Cons e es)
  show ?case
  proof (cases e)
    case (Ran c' x)
    then show ?thesis using Cons by (cases x) auto
  qed (use Cons in auto)
qed

lemma writes_files_simps [simp]:
  "writes_files (BackupCmd p)" "writes_files MkdirDeploy" "writes_files CopyNewFiles"
  "writes_files (RestoreCmd p)" "\<not> writes_files Pgrep" "\<not> writes_files (Pkill sg)"
  "\<not> writes_files ChmodScripts" "\<not> writes_files StartScript" "\<not> writes_files StartDirect"
  "\<not> writes_files Curl"
  by (simp_all add: writes_files_def)

lemma run_command_explored:
  assumes "run_command command description E s = (r, es, s')"
  shows "r = Ret True \<or>
         (r = Ret False \<and> (\<forall>err. Ran command (Returned 0 err) \<notin> set es)) \<or>
         r = Raise KeyboardInterrupt"
  using assms unfolding run_command_def print_defs only_if_def
  by (auto elim!: comb_runs prim_runs subprocess_run_run
      dest!: ret_run raise_run split: if_splits exn.splits)

lemma emits_own_command:
  "emits (\<lambda>e. is_print e \<or> (\<exists>x. e = Ran command x)) (run_command command description)"
  unfolding run_command_def print_defs
  by (intro emits_rules) (simp_all add: is_print_def)

lemma run_command_summary:
  assumes "run_command command description E s = (r, es, s')"
  shows "((r = Ret True \<and> ran_ok command es) \<or> (r = Ret False \<and> \<not> ran_ok command es) \<or>
          r = Raise KeyboardInterrupt) \<and>
         (ran_ok command es \<longrightarrow> fs s' = effect command (fs s)) \<and>
         (\<forall>c x. c \<noteq> command \<longrightarrow> Ran c x \<notin> set es) \<and>
         (\<forall>n. Slept n \<notin> set es) \<and>
         (\<forall>a b c d e. Notification a b c d e \<notin> set es) \<and>
         (\<not> writes_files command \<longrightarrow> fs s' = fs s) \<and>
         calls s \<le> calls s'"
proof -
  have ev: "\<forall>e\<in>set es. is_print e \<or> (\<exists>x. e = Ran command x)"
    using emitsD[OF emits_own_command assms] by blast
  have "Ran c x \<notin> set es" if "c \<noteq> command" for c x
    using bspec[OF ev, of "Ran c x"] that by (auto simp: is_print_def)
  moreover have "Slept n \<notin> set es" for n
    using bspec[OF ev, of "Slept n"] by (auto simp: is_print_def)
  moreover have "Notification a b c d e \<notin> set es" for a b c d e
    using bspec[OF ev, of "Notification a b c d e"] by (auto simp: is_print_def)
  ultimately have "(\<forall>c x. c \<noteq> command \<longrightarrow> Ran c x \<notin> set es) \<and> (\<forall>n. Slept n \<notin> set es) \<and>
         (\<forall>a b c d e. Notification a b c d e \<notin> set es)"
    by blast
  then show ?thesis
    using run_command_explored[OF assms] run_command_files[OF assms]
      keeps_filesD[OF keeps_run_command assms] tameD(2)[OF tame_run_command assms]
    unfolding ran_ok_iff by blast
qed

lemma backup_current_version_some:
  assumes "backup_current_version E s = (Ret (Some bp), es, s')"
  shows "bp = BACKUP_DIR @ ''/'' @ APP_NAME @ ''_'' @
              strftime_compact (now E (Suc (Suc (steps s)))) \<and>
         ran_ok (BackupCmd bp) es \<and> fs s' = effect (BackupCmd bp) (fs s)"
  using assms unfolding backup_current_version_def print_defs Let_def
  by (auto elim!: comb_runs prim_runs dest!: ret_run run_command_summary split: if_splits)







subsection \<open>Backup and rollback on the file system\<close>








subsection \<open>Runs in the quiet environment\<close>

lemma uninterrupted_still: "uninterrupted still"
  by (simp add: uninterrupted_def still_def)




lemma still_quiet: "interrupt still n = False" "now still n = now still 0"
  by (simp_all add: still_def)









subsection \<open>A deployment onto a stopped application\<close>

lemma emits_all: "emits P m \<Longrightarrow> m E s = (r, es, s') \<Longrightarrow> list_all P es"
  unfolding emits_def by (metis fst_conv snd_conv)

lemma rule50 [simp]: "replicate 50 c = c # replicate 49 c"
  by (simp add: numeral_eq_Suc)

lemma emits_health_loop:
  assumes "\<And>a. emits P (probe a)" and "\<And>m. P (Print INFO (''Health check attempt '' @ m))"
    and "P (Slept 5)"
    and "P (Print ERROR ''Health check failed - application is not responding'')"
  shows "emits P (health_loop N a)"
proof (induction "Suc N - a" arbitrary: a rule: less_induct)
  case less
  show ?case
    unfolding health_loop.simps[of N a] print_defs
    apply (intro emits_rules assms)
    apply (rule less.hyps)
    apply simp
    done
qed

lemma emits_probe:
  assumes "\<And>x. P (Ran Curl x)"
    and "P (Print SUCCESS
              ([CHR 0xC3, CHR 0xA2, CHR 0xC5, CHR 0x93, CHR 0xE2, CHR 0x80, CHR 0x9C] @
               '' Application is healthy!''))"
    and "\<And>m. P (Print WARNING (''Health check failed (attempt '' @ m))"
    and "\<And>m. P (Print WARNING (''Health check error: '' @ m))"
  shows "emits P (probe a)"
  unfolding probe_def print_defs
  by (intro emits_rules assms)

lemma unprepared_simps [simp]:
  "unprepared (Slept n)" "unprepared (Notification a b c d f)"
  "unprepared (Print l m) =
     (m \<noteq> ''Creating backup of current version...'' \<and> m \<noteq> ''Stopping '' @ APP_NAME @ ''...'')"
  "unprepared (Ran Pgrep x)" "unprepared (Ran MkdirDeploy x)" "unprepared (Ran CopyNewFiles x)"
  "unprepared (Ran ChmodScripts x)" "unprepared (Ran StartScript x)"
  "unprepared (Ran StartDirect x)" "unprepared (Ran Curl x)" "unprepared (Ran (RestoreCmd p) x)"
  by (simp_all add: unprepared_def backup_event_def stop_event_def)

















subsection \<open>Rollback only after a backup\<close>

lemma emits_weaken: "emits P m \<Longrightarrow> (\<And>e. P e \<Longrightarrow> Q e) \<Longrightarrow> emits Q m"
  unfolding emits_def list_all_iff by blast

lemma settled_simps [simp]:
  "settled (Slept n)" "settled (Notification a b c d f)"
  "settled (Print l m) = (m \<noteq> ''Initiating rollback to previous version...'')"
  "settled (Ran Pgrep x)" "settled (Ran (Pkill sg) x)" "settled (Ran (BackupCmd p) x)"
  "settled (Ran MkdirDeploy x)" "settled (Ran CopyNewFiles x)"
  "settled (Ran ChmodScripts x)" "settled (Ran StartScript x)"
  "settled (Ran StartDirect x)" "settled (Ran Curl x)" "\<not> settled (Ran (RestoreCmd p) x)"
  by (simp_all add: settled_def rollback_event_def)

lemma settled_banner: "emits settled banner"
  unfolding banner_def print_defs
  by (intro emits_rules) (simp_all add: APP_NAME_def)

lemma settled_check_app_running: "emits settled check_app_running"
  unfolding check_app_running_def print_defs
  by (intro emits_rules) (simp_all add: APP_NAME_def)

lemma settled_run_command:
  assumes "settled (Print INFO description)" "\<And>x. settled (Ran command x)"
  shows "emits settled (run_command command description)"
  unfolding run_command_def print_defs
  by (intro emits_rules) (use assms in \<open>simp_all add: APP_NAME_def\<close>)

lemma settled_backup_current_version: "emits settled backup_current_version"
  unfolding backup_current_version_def print_defs
  by (intro emits_rules settled_run_command) (simp_all add: APP_NAME_def BACKUP_DIR_def)

lemma settled_stop_application: "emits settled stop_application"
  unfolding stop_application_def force_kill_def print_defs
  by (intro emits_rules settled_run_command settled_check_app_running)
     (simp_all add: APP_NAME_def)

lemma settled_deploy_new_version: "emits settled deploy_new_version"
  unfolding deploy_new_version_def print_defs
  by (intro emits_rules settled_run_command) (simp_all add: APP_NAME_def)

lemma settled_start_application: "emits settled start_application"
  unfolding start_application_cases print_defs
  by (intro emits_rules settled_run_command) (simp_all add: APP_NAME_def)

lemma settled_health_check: "emits settled health_check"
  unfolding health_check_def print_defs
  by (intro emits_rules emits_health_loop emits_probe) (simp_all add: APP_NAME_def)

lemma settled_send_notification: "emits settled (send_notification status message)"
  unfolding send_notification_def print_defs
  by (intro emits_rules) (simp_all add: APP_NAME_def emits_def operation_def)

lemma settled_check_and_backup: "emits settled check_and_backup"
  unfolding check_and_backup_def
  by (intro emits_rules settled_check_app_running settled_backup_current_version)

lemma settled_allowed: "settled e \<Longrightarrow> allowed bp e"
  by (simp add: settled_def allowed_def)

lemmas allowed_parts =
  emits_weaken[OF settled_stop_application settled_allowed]
  emits_weaken[OF settled_deploy_new_version settled_allowed]
  emits_weaken[OF settled_start_application settled_allowed]
  emits_weaken[OF settled_health_check settled_allowed]
  emits_weaken[OF settled_send_notification settled_allowed]

lemma allowed_print: "m \<noteq> ''Initiating rollback to previous version...'' \<Longrightarrow> allowed bp (Print l m)"
  by (simp add: allowed_def rollback_event_def)

lemma allowed_rollback: "truthy bp \<Longrightarrow> emits (allowed bp) (rollback bp)"
proof (cases bp)
  case None
  assume "truthy bp"
  with None show ?thesis by (simp add: truthy_def)
next
  case (Some p)
  assume "truthy bp"
  show ?thesis
    unfolding Some rollback_def no_backup_available_def rollback_failed_def run_command_def
      print_defs option.case
    by (intro emits_rules allowed_parts)
       (use \<open>truthy bp\<close> Some in \<open>simp_all add: allowed_def rollback_event_def truthy_def\<close>)
qed

lemma allowed_deploy_and_verify: "emits (allowed bp) (deploy_and_verify t bp)"
  unfolding deploy_and_verify_def print_defs
  by (intro emits_rules allowed_parts allowed_rollback allowed_print) simp_all

lemma allowed_stop_and_deploy: "emits (allowed bp) (stop_and_deploy t ir bp)"
  unfolding stop_and_deploy_def print_defs
  by (intro emits_rules allowed_parts allowed_deploy_and_verify allowed_print) simp_all

lemma allowed_except_clause: "emits (allowed bp) (except_clause bp e)"
  unfolding except_clause_def print_defs
  by (intro emits_rules allowed_parts allowed_rollback allowed_print) simp_all

lemma allowed_continuation:
  "emits (allowed bp) (catch (stop_and_deploy t ir bp) (except_clause bp))"
  by (intro emits_catch allowed_stop_and_deploy allowed_except_clause)

lemma backed_up_simps [simp]:
  "\<not> backed_up []" "backed_up (e # es) = (backup_success e \<or> backed_up es)"
  "backed_up (es @ es') = (backed_up es \<or> backed_up es')"
  by (simp_all add: backed_up_def)

lemma backup_success_simps [simp]:
  "\<not> backup_success (Print l m)" "\<not> backup_success (Slept n)"
  "\<not> backup_success (Notification a b c d f)"
  by (simp_all add: backup_success_def)

lemma backed_up_iff: "backed_up es = (\<exists>p. ran_ok (BackupCmd p) es)"
proof (induction es)
  case Nil
  then show ?case by simp
next
  case (Cons e es)
  show ?case
  proof (cases e)
    case (Ran c x)
    then show ?thesis using Cons by (cases c) (auto simp: backup_success_def)
  qed (use Cons in auto)
qed

lemma ran_ok_member: "ran_ok c es \<Longrightarrow> \<exists>x. Ran c x \<in> set es"
  unfolding ran_ok_iff by blast

lemma own_command_not_backed_up:
  assumes "\<forall>c x. c \<noteq> command \<longrightarrow> Ran c x \<notin> set es" and "\<not> ran_ok command es"
  shows "\<not> backed_up es"
proof
  assume "backed_up es"
  then obtain p where p: "ran_ok (BackupCmd p) es" unfolding backed_up_iff by blast
  with assms(1) ran_ok_member[OF p] have "BackupCmd p = command" by blast
  with p assms(2) show False by simp
qed

lemma run_command_backed_up:
  assumes "run_command command description E s = (r, es, s')"
  shows "((r = Ret True \<and> ran_ok command es) \<or> (r = Ret False \<and> \<not> ran_ok command es) \<or>
          r = Raise KeyboardInterrupt) \<and>
         (backed_up es \<longrightarrow> ran_ok command es)"
  using run_command_summary[OF assms] own_command_not_backed_up[of command es] by blast

lemma backup_current_version_none:
  assumes "backup_current_version E s = (Ret None, es, s')"
  shows "\<not> backed_up es"
  using assms unfolding backup_current_version_def print_defs Let_def
  by (auto elim!: comb_runs prim_runs dest!: ret_run run_command_backed_up split: if_splits)

lemma check_and_backup_some:
  assumes "check_and_backup E s = (Ret (ir, Some p), es, s')"
  shows "ran_ok (BackupCmd p) es"
  using assms unfolding check_and_backup_def
  by (auto elim!: comb_runs dest!: ret_run backup_current_version_some split: if_splits)

lemma check_and_backup_none:
  assumes "check_and_backup E s = (r, es, s')" and "\<not> backed_up es"
  shows "\<forall>ir bp. r = Ret (ir, bp) \<longrightarrow> \<not> truthy bp"
proof (intro allI impI)
  fix ir bp assume r: "r = Ret (ir, bp)"
  show "\<not> truthy bp"
  proof (cases bp)
    case None
    then show ?thesis by (simp add: truthy_def)
  next
    case (Some p)
    with r assms(1) have "ran_ok (BackupCmd p) es" by (auto intro: check_and_backup_some)
    with assms(2) show ?thesis unfolding backed_up_iff by blast
  qed
qed

lemma tame_banner: "tame lax banner"
  unfolding banner_def print_defs by (intro tame_rules)

lemma main_cases:
  assumes "main E s = (r, es, s')"
  obtains (early) e where "r = Raise e" "\<And>P. emits P banner \<Longrightarrow> list_all P es"
      "\<not> calm_from E s"
      "banner E s = (Raise e, es, s') \<or>
       (\<exists>sb. banner E s = (Ret (), es, sb) \<and> time_time E sb = (Raise e, [], s'))"
    | (checked) es0 sb t s1 is_running backup_path es1 s2 es2 where
        "banner E s = (Ret (), es0, sb)" "time_time E sb = (Ret t, [], s1)"
        "check_and_backup E s1 = (Ret (is_running, backup_path), es1, s2)"
        "catch (stop_and_deploy t is_running backup_path) (except_clause backup_path) E s2 =
           (r, es2, s')"
        "es = es0 @ es1 @ es2"
    | (crashed) es0 sb t s1 e es1 s2 es2 where
        "banner E s = (Ret (), es0, sb)" "time_time E sb = (Ret t, [], s1)"
        "check_and_backup E s1 = (Raise e, es1, s2)"
        "except_clause None e E s2 = (r, es2, s')"
        "es = es0 @ es1 @ es2"
  using assms unfolding main_def
proof (cases rule: seq_run)
  case (returns v es0 sb esr)
  from returns(2) show ?thesis
  proof (cases rule: bnd_run)
    case (returns t es3 s1 es4)
    from returns(1) have e3: "es3 = []" by (auto elim!: time_time_run)
    from returns(2) show ?thesis
    proof (cases rule: try_with_run)
      case (returns w es5 s5 es6)
      obtain ir bp where w: "w = (ir, bp)" by (cases w)
      show ?thesis
        using checked[of es0 sb t s1 ir bp es5 s5 es6] returns w e3
          \<open>banner E s = (Ret v, es0, sb)\<close> \<open>time_time E sb = (Ret t, es3, s1)\<close>
          \<open>esr = es3 @ es4\<close> \<open>es = es0 @ esr\<close>
        by simp
    next
      case (raises e es5 s5 es6)
      show ?thesis
        using crashed[of es0 sb t s1 e es5 s5 es6] raises e3
          \<open>banner E s = (Ret v, es0, sb)\<close> \<open>time_time E sb = (Ret t, es3, s1)\<close>
          \<open>esr = es3 @ es4\<close> \<open>es = es0 @ esr\<close>
        by simp
    qed
  next
    case (raises e)
    then have "esr = []" by (auto elim!: time_time_run)
    moreover have "\<not> calm_from E sb"
      using tameD(3)[OF tame_time_time[of False] raises(1), of e] raises(2) by simp
    then have "\<not> calm_from E s"
      using calm_from_mono[of E s sb]
        tameD(1,2)[OF tame_banner[of False] \<open>banner E s = (Ret v, es0, sb)\<close>]
      by blast
    ultimately show ?thesis
      using early[of e] raises \<open>es = es0 @ esr\<close> \<open>banner E s = (Ret v, es0, sb)\<close>
      by (auto dest: emits_all)
  qed
next
  case (raises e)
  moreover have "\<not> calm_from E s"
    using tameD(3)[OF tame_banner[of False] raises(1), of e] raises(2) by simp
  ultimately show ?thesis using early[of e] by (auto dest: emits_all)
qed

lemma split_at_first:
  assumes "xs @ ys = a @ e # b" and "e \<notin> set xs"
  shows "\<exists>w. a = xs @ w \<and> ys = w @ e # b"
  using assms by (auto simp: append_eq_append_conv2 append_eq_Cons_conv)

lemma allowed_settled: "\<not> truthy bp \<Longrightarrow> list_all (allowed bp) es \<Longrightarrow> list_all settled es"
  by (auto simp: list_all_iff allowed_def settled_def)

lemma settled_no_restore: "list_all settled es \<Longrightarrow> Ran (RestoreCmd p) x \<notin> set es"
  by (auto simp: list_all_iff)

lemma allowed_restore:
  "list_all (allowed bp) es \<Longrightarrow> Ran (RestoreCmd p) x \<in> set es \<Longrightarrow> bp = Some p"
  by (auto simp: list_all_iff allowed_def rollback_event_def)

text \<open>
  C2. In every run of \<^verbatim>\<open>main\<close>: if no backup command succeeded (backup was not called,
  found nothing to back up, or failed, so that \<^verbatim>\<open>backup_path\<close> stays None), no event of
  the run belongs to a rollback, whatever fails later; and every restore command of the
  run, the only command that removes the deployment location, comes after a successful
  backup command to the very path it restores from. A backup that returns None has not run a
  successful backup command.
\<close>

theorem rollback_needs_backup:
  "(\<not> backed_up (events main E s) \<longrightarrow> list_all settled (events main E s)) \<and>
   (\<forall>a p x b. events main E s = a @ Ran (RestoreCmd p) x # b \<longrightarrow> ran_ok (BackupCmd p) a) \<and>
   (result backup_current_version E s = Ret None \<longrightarrow>
      \<not> backed_up (events backup_current_version E s))"
proof -
  obtain r es s' where run: "main E s = (r, es, s')" by (cases "main E s") auto
  have one: "\<not> backed_up es \<longrightarrow> list_all settled es"
    and two: "\<forall>a p x b. es = a @ Ran (RestoreCmd p) x # b \<longrightarrow> ran_ok (BackupCmd p) a"
  proof -
    from run show "\<not> backed_up es \<longrightarrow> list_all settled es"
    proof (cases rule: main_cases)
      case (early e)
      from early(2)[OF settled_banner] show ?thesis by simp
    next
      case (checked es0 sb t s1 ir bp es1 s2 es2)
      note p0 = emits_all[OF settled_banner checked(1)]
        and p1 = emits_all[OF settled_check_and_backup checked(3)]
        and p2 = emits_all[OF allowed_continuation checked(4)]
      show ?thesis
      proof
        assume "\<not> backed_up es"
        with checked(5) have "\<not> backed_up es1" by simp
        with check_and_backup_none[OF checked(3)] have "\<not> truthy bp" by blast
        with p2 have "list_all settled es2" using allowed_settled by blast
        with p0 p1 checked(5) show "list_all settled es" by simp
      qed
    next
      case (crashed es0 sb t s1 e es1 s2 es2)
      note p0 = emits_all[OF settled_banner crashed(1)]
        and p1 = emits_all[OF settled_check_and_backup crashed(3)]
        and p2 = emits_all[OF allowed_except_clause crashed(4)]
      have "list_all settled es2" using p2 by (intro allowed_settled[of None]) (simp add: truthy_def)
      with p0 p1 crashed(5) show ?thesis by simp
    qed
  next
    show "\<forall>a p x b. es = a @ Ran (RestoreCmd p) x # b \<longrightarrow> ran_ok (BackupCmd p) a"
    proof (intro allI impI)
      fix a p x b
      assume es: "es = a @ Ran (RestoreCmd p) x # b"
      from run show "ran_ok (BackupCmd p) a"
      proof (cases rule: main_cases)
        case (early e)
        from early(2)[OF settled_banner] es show ?thesis
          using settled_no_restore[of es p x] by simp
      next
        case (checked es0 sb t s1 ir bp es1 s2 es2)
        note p0 = emits_all[OF settled_banner checked(1)]
          and p1 = emits_all[OF settled_check_and_backup checked(3)]
          and p2 = emits_all[OF allowed_continuation checked(4)]
        from p0 p1 have "Ran (RestoreCmd p) x \<notin> set (es0 @ es1)"
          using settled_no_restore[of "es0 @ es1" p x] by simp
        with es checked(5) obtain w where w: "a = (es0 @ es1) @ w" "es2 = w @ Ran (RestoreCmd p) x # b"
          using split_at_first[of "es0 @ es1" es2 a "Ran (RestoreCmd p) x" b] by auto
        from w(2) p2 have "bp = Some p" by (intro allowed_restore[of bp es2 p x]) simp_all
        with checked(3) have "ran_ok (BackupCmd p) es1" by (auto intro: check_and_backup_some)
        with w(1) show ?thesis by simp
      next
        case (crashed es0 sb t s1 e es1 s2 es2)
        note p0 = emits_all[OF settled_banner crashed(1)]
          and p1 = emits_all[OF settled_check_and_backup crashed(3)]
          and p2 = emits_all[OF allowed_except_clause crashed(4)]
        from p0 p1 have "Ran (RestoreCmd p) x \<notin> set (es0 @ es1)"
          using settled_no_restore[of "es0 @ es1" p x] by simp
        with es crashed(5) obtain w where w: "a = (es0 @ es1) @ w" "es2 = w @ Ran (RestoreCmd p) x # b"
          using split_at_first[of "es0 @ es1" es2 a "Ran (RestoreCmd p) x" b] by auto
        from w(2) p2 have "None = Some p" by (intro allowed_restore[of None es2 p x]) simp_all
        then show ?thesis by simp
      qed
    qed
  qed
  have three: "result backup_current_version E s = Ret None \<longrightarrow>
      \<not> backed_up (events backup_current_version E s)"
  proof
    assume "result backup_current_version E s = Ret None"
    then obtain es1 s1 where "backup_current_version E s = (Ret None, es1, s1)"
      by (cases "backup_current_version E s") (auto simp: result_def)
    from backup_current_version_none[OF this] this
    show "\<not> backed_up (events backup_current_version E s)" by (simp add: events_def)
  qed
  from one two three run show ?thesis by (simp add: events_def)
qed

subsection \<open>Evaluating whole runs\<close>

lemma uninterrupted_unlucky: "uninterrupted unlucky"
  by (simp add: uninterrupted_def unlucky_def still_def)

lemma unlucky_facts:
  "interrupt unlucky n = False"
  "how_ended unlucky c command (Some 300) =
     Returned (if c = 1 \<or> c = 8 then 1 else 0) []"
  "how_ended unlucky c command (Some 5) =
     Returned (if c = 1 \<or> c = 8 then 1 else 0) []"
  "outcome unlucky c = (if c = 1 \<or> c = 8 then Exits 1 [] else Exits 0 [])"
  "status_of unlucky c command rc = rc"
  "strftime_compact (now unlucky n) = ''20240517_090307''"
  by (simp_all add: unlucky_def still_def how_ended_def timed_out_def status_of_def
      strftime_compact_def zfill_def str_nat.simps digit_char_def)

lemmas program_defs =
  main_def banner_def check_and_backup_def stop_and_deploy_def deploy_and_verify_def
  except_clause_def backup_current_version_def stop_application_def force_kill_def
  deploy_new_version_def start_application_def health_check_def rollback_def
  no_backup_available_def rollback_failed_def send_notification_def truthy_def

lemmas sequencing_defs =
  seq_def bnd_def catch_def try_with_def ret_def raise_def only_if_def print_defs Let_def
  os_path_exists_def datetime_now_def time_time_def operation_def
  succeeded_def described_def report_def files_after_def

lemma unlucky_run:
  "result main unlucky (fresh installed) = Ret 1"
  "\<not> backed_up (events main unlucky (fresh installed))"
  by (simp_all add: program_defs sequencing_defs result_def events_def fresh_def
      print_line_eq[OF uninterrupted_unlucky] time_sleep_eq[OF uninterrupted_unlucky]
      run_command_eq[OF uninterrupted_unlucky] check_app_running_eq[OF uninterrupted_unlucky]
      unlucky_facts installed_def one_version_def nothing_def
      DEPLOY_DIR_def SOURCE_DIR_def backup_success_def str_int_def str_nat.simps digit_char_def)

lemma still_no_deployment:
  "result backup_current_version still (fresh nothing) = Ret None"
  by (simp add: backup_current_version_def sequencing_defs result_def fresh_def nothing_def
      print_line_eq[OF uninterrupted_still] still_quiet)

theorem rollback_needs_backup_witness:
  "\<not> backed_up (events main unlucky (fresh installed)) \<and>
   list_all settled (events main unlucky (fresh installed)) \<and>
   result main unlucky (fresh installed) = Ret 1 \<and>
   result backup_current_version still (fresh nothing) = Ret None \<and>
   \<not> backed_up (events backup_current_version still (fresh nothing))"
  using rollback_needs_backup[of unlucky "fresh installed"]
    rollback_needs_backup[of still "fresh nothing"] unlucky_run still_no_deployment
  by blast

(*THMS*)

end
